theory Spec2Isabelle
  imports Complex_Main "HOL-Library.Sublist" "HOL-Library.Product_Lexorder"
begin

section \<open>Python primitives used by the engine\<close>

text \<open>
  A Python \<open>str\<close> is a sequence of code points. It is modelled as a \<open>string\<close>
  whose characters are the code points below 256 (the Latin-1 block); \<open>length\<close>
  counts code points, as Python's \<open>len\<close> does. A Python float is modelled as the
  real number it holds, and every float operation rounds its exact result to the
  nearest double, as the section on floats writes out.
\<close>

definition code_point :: "char \<Rightarrow> nat" where
  "code_point c = of_char c"

text \<open>\<open>str.isspace\<close> on the code points below 256.\<close>

definition py_isspace :: "char \<Rightarrow> bool" where
  "py_isspace c =
     (let n = code_point c
      in (9 \<le> n \<and> n \<le> 13) \<or> (28 \<le> n \<and> n \<le> 32) \<or> n = 133 \<or> n = 160)"

text \<open>\<open>str.strip()\<close>: drops leading and trailing whitespace.\<close>

definition py_strip :: "string \<Rightarrow> string" where
  "py_strip s = rev (dropWhile py_isspace (rev (dropWhile py_isspace s)))"

text \<open>\<open>str.lower()\<close> on the code points below 256: A-Z and the accented capitals
  U+00C0..U+00DE (the multiplication sign U+00D7 apart) move up by 32.\<close>

definition lower_char :: "char \<Rightarrow> char" where
  "lower_char c =
     (let n = code_point c
      in if (65 \<le> n \<and> n \<le> 90) \<or> (192 \<le> n \<and> n \<le> 222 \<and> n \<noteq> 215)
         then char_of (n + 32) else c)"

definition py_lower :: "string \<Rightarrow> string" where
  "py_lower s = map lower_char s"

text \<open>
  \<open>unicodedata.normalize("NFD", texto)\<close> followed by the removal of every character of
  category \<open>Mn\<close>: an accented Latin-1 letter decomposes into its base letter and
  combining marks, and the marks are dropped. Every other code point below 256 has no
  canonical decomposition.
\<close>

definition quitar_acento :: "char \<Rightarrow> char" where
  "quitar_acento c =
     (let n = code_point c in
      if 192 \<le> n \<and> n \<le> 197 then CHR ''A''
      else if n = 199 then CHR ''C''
      else if 200 \<le> n \<and> n \<le> 203 then CHR ''E''
      else if 204 \<le> n \<and> n \<le> 207 then CHR ''I''
      else if n = 209 then CHR ''N''
      else if 210 \<le> n \<and> n \<le> 214 then CHR ''O''
      else if 217 \<le> n \<and> n \<le> 220 then CHR ''U''
      else if n = 221 then CHR ''Y''
      else if 224 \<le> n \<and> n \<le> 229 then CHR ''a''
      else if n = 231 then CHR ''c''
      else if 232 \<le> n \<and> n \<le> 235 then CHR ''e''
      else if 236 \<le> n \<and> n \<le> 239 then CHR ''i''
      else if n = 241 then CHR ''n''
      else if 242 \<le> n \<and> n \<le> 246 then CHR ''o''
      else if 249 \<le> n \<and> n \<le> 252 then CHR ''u''
      else if n = 253 \<or> n = 255 then CHR ''y''
      else c)"

text \<open>The character class \<open>[a-z0-9]\<close>.\<close>

definition es_alfanumerico :: "char \<Rightarrow> bool" where
  "es_alfanumerico c =
     (let n = code_point c in (97 \<le> n \<and> n \<le> 122) \<or> (48 \<le> n \<and> n \<le> 57))"

text \<open>\<open>re.sub(r"[P]+", " ", s)\<close>: every maximal run of characters of the class
  becomes one space.\<close>

function re_sub_runs :: "(char \<Rightarrow> bool) \<Rightarrow> string \<Rightarrow> string" where
  "re_sub_runs P [] = []"
| "re_sub_runs P (c # cs) =
     (if P c then CHR '' '' # re_sub_runs P (dropWhile P cs) else c # re_sub_runs P cs)"
  by pat_completeness auto
termination
  by (relation "measure (\<lambda>(P, s). length s)")
     (auto simp: length_dropWhile_le less_Suc_eq_le)

section \<open>Python floats\<close>

text \<open>
  Rounding a real to the nearest integer, a tie going to the even one.
\<close>

definition round_half_even :: "real \<Rightarrow> int" where
  "round_half_even y =
     (let f = \<lfloor>y\<rfloor>; d = y - of_int f
      in if d < 1 / 2 then f else if d > 1 / 2 then f + 1 else if even f then f else f + 1)"

text \<open>
  The exponent of a positive real: \<open>binexp x\<close> is the integer \<open>e\<close> with
  \<open>2 ^ e \<le> x < 2 ^ (e + 1)\<close>, found by halving or doubling. The lemma on floors
  is what the two searches need to terminate.
\<close>

lemma floor_half_less:
  assumes "1 \<le> (y::real)"
  shows "\<lfloor>y / 2\<rfloor> < \<lfloor>y\<rfloor>"
proof (cases "2 \<le> y")
  case True
  have "real_of_int \<lfloor>y / 2\<rfloor> \<le> y / 2" by (rule of_int_floor_le)
  then have "real_of_int (\<lfloor>y / 2\<rfloor> + 1) \<le> y" using True by simp
  then have "\<lfloor>y / 2\<rfloor> + 1 \<le> \<lfloor>y\<rfloor>" by (simp only: le_floor_iff)
  then show ?thesis by simp
next
  case False
  then have "\<lfloor>y / 2\<rfloor> = 0" using assms by (simp add: floor_eq_iff)
  moreover have "1 \<le> \<lfloor>y\<rfloor>" using assms by (simp add: le_floor_iff)
  ultimately show ?thesis by simp
qed

function exp_ge1 :: "real \<Rightarrow> int" where
  "exp_ge1 x = (if 2 \<le> x then exp_ge1 (x / 2) + 1 else 0)"
  by pat_completeness auto
termination
proof (relation "measure (\<lambda>x. nat \<lfloor>x\<rfloor>)", goal_cases)
  case 1
  then show ?case by simp
next
  case (2 x)
  then have "\<lfloor>x / 2\<rfloor> < \<lfloor>x\<rfloor>" by (intro floor_half_less) simp
  moreover have "0 < \<lfloor>x\<rfloor>" using 2 by linarith
  ultimately show ?case by simp
qed

function exp_lt1 :: "real \<Rightarrow> int" where
  "exp_lt1 x = (if 0 < x \<and> x < 1 then exp_lt1 (2 * x) - 1 else 0)"
  by pat_completeness auto
termination
proof (relation "measure (\<lambda>x. nat \<lfloor>1 / x\<rfloor>)", goal_cases)
  case 1
  then show ?case by simp
next
  case (2 x)
  then have y: "1 < 1 / x" by simp
  have "\<lfloor>(1 / x) / 2\<rfloor> < \<lfloor>1 / x\<rfloor>" using y by (intro floor_half_less) simp
  moreover have "1 / (2 * x) = (1 / x) / 2" by simp
  ultimately have "\<lfloor>1 / (2 * x)\<rfloor> < \<lfloor>1 / x\<rfloor>" by (simp only:)
  moreover have "0 < \<lfloor>1 / x\<rfloor>" using y by linarith
  ultimately show ?case by simp
qed

declare exp_ge1.simps [simp del]
declare exp_lt1.simps [simp del]

definition binexp :: "real \<Rightarrow> int" where
  "binexp x = (if 1 \<le> x then exp_ge1 x else exp_lt1 x)"

text \<open>
  \<open>double x\<close> is the double nearest to \<open>x\<close>, a tie going to the even significand
  (IEEE 754 binary64, round-to-nearest-even): a multiple of the unit in the last
  place \<open>ulp x\<close>, which is \<open>2 ^ (e - 52)\<close> and never below \<open>2 ^ -1074\<close>, the spacing
  of the subnormal numbers. Overflow is not modelled: no value of the engine comes near
  \<open>2 ^ 1024\<close>.
\<close>

definition ulp :: "real \<Rightarrow> real" where
  "ulp x = 2 powi (max (binexp x) (- 1022) - 52)"

definition double_pos :: "real \<Rightarrow> real" where
  "double_pos x = of_int (round_half_even (x / ulp x)) * ulp x"

definition double :: "real \<Rightarrow> real" where
  "double x = (if x < 0 then - double_pos (- x) else double_pos x)"

lemma exp_ge1_bounds:
  "1 \<le> x \<Longrightarrow> 2 powi (exp_ge1 x) \<le> x \<and> x < 2 powi (exp_ge1 x + 1)"
proof (induction x rule: exp_ge1.induct)
  case (1 x)
  show ?case
  proof (cases "2 \<le> x")
    case True
    then have "2 powi (exp_ge1 (x / 2)) \<le> x / 2 \<and> x / 2 < 2 powi (exp_ge1 (x / 2) + 1)"
      using "1.IH" by simp
    moreover have "exp_ge1 x = exp_ge1 (x / 2) + 1"
      using True by (subst exp_ge1.simps) simp
    ultimately show ?thesis
      by (simp add: power_int_add)
  next
    case False
    then have "exp_ge1 x = 0" by (subst exp_ge1.simps) simp
    then show ?thesis using False "1.prems" by simp
  qed
qed

lemma exp_lt1_bounds:
  "0 < x \<Longrightarrow> x < 1 \<Longrightarrow> 2 powi (exp_lt1 x) \<le> x \<and> x < 2 powi (exp_lt1 x + 1)"
proof (induction x rule: exp_lt1.induct)
  case (1 x)
  have e: "exp_lt1 x = exp_lt1 (2 * x) - 1"
    using "1.prems" by (subst exp_lt1.simps) simp
  show ?case
  proof (cases "2 * x < 1")
    case True
    then have "2 powi (exp_lt1 (2 * x)) \<le> 2 * x \<and> 2 * x < 2 powi (exp_lt1 (2 * x) + 1)"
      using "1.IH" "1.prems" by simp
    then show ?thesis
      unfolding e by (simp add: power_int_add power_int_diff)
  next
    case False
    then have "exp_lt1 (2 * x) = 0" by (subst exp_lt1.simps) simp
    then show ?thesis unfolding e using False "1.prems" by (simp add: power_int_minus)
  qed
qed

lemma binexp_bounds:
  assumes "0 < x"
  shows "2 powi (binexp x) \<le> x \<and> x < 2 powi (binexp x + 1)"
  using assms exp_ge1_bounds[of x] exp_lt1_bounds[of x] by (auto simp: binexp_def)

lemma round_half_even_near:
  "real_of_int (round_half_even y) - 1 / 2 \<le> y \<and> y \<le> real_of_int (round_half_even y) + 1 / 2"
  unfolding round_half_even_def Let_def by (auto; linarith)

lemma round_half_even_mono:
  assumes "x \<le> y"
  shows "round_half_even x \<le> round_half_even y"
proof (rule ccontr)
  assume "\<not> round_half_even x \<le> round_half_even y"
  then have lt: "round_half_even y + 1 \<le> round_half_even x" by simp
  then have "real_of_int (round_half_even y) + 1 \<le> real_of_int (round_half_even x)"
    by linarith
  with round_half_even_near[of x] round_half_even_near[of y] assms
  have "x = y" by linarith
  with lt show False by simp
qed

lemma round_half_even_of_int: "round_half_even (of_int n) = n"
  by (simp add: round_half_even_def)

lemma ulp_pos: "0 < ulp x"
  by (simp add: ulp_def)

lemma two_powi_mono: "a \<le> b \<Longrightarrow> (2::real) powi a \<le> 2 powi b"
  by (rule power_int_increasing) simp_all

lemma two_powi_less_cancel: "(2::real) powi a < 2 powi b \<Longrightarrow> a < b"
  by (rule ccontr) (use two_powi_mono[of b a] in auto)

lemma binexp_mono:
  assumes "0 < x" "x \<le> y"
  shows "binexp x \<le> binexp y"
proof -
  have "2 powi (binexp x) \<le> x" using binexp_bounds[OF assms(1)] by simp
  moreover have "y < 2 powi (binexp y + 1)" using binexp_bounds[of y] assms by simp
  ultimately have "(2::real) powi (binexp x) < 2 powi (binexp y + 1)" using assms(2) by linarith
  then have "binexp x < binexp y + 1" by (rule two_powi_less_cancel)
  then show ?thesis by simp
qed

lemma double_pos_nonneg:
  assumes "0 \<le> x"
  shows "0 \<le> double_pos x"
proof -
  have "0 \<le> x / ulp x" using assms ulp_pos[of x] by simp
  then have "round_half_even 0 \<le> round_half_even (x / ulp x)" by (rule round_half_even_mono)
  then have "0 \<le> round_half_even (x / ulp x)" by (simp add: round_half_even_def)
  then show ?thesis using ulp_pos[of x] by (simp add: double_pos_def)
qed

lemma double_pos_upper:
  assumes "0 < x"
  shows "double_pos x \<le> 2 powi (max (binexp x) (- 1022) + 1)"
proof -
  let ?e = "max (binexp x) (- 1022)"
  have "x < 2 powi (binexp x + 1)" using binexp_bounds[OF assms] by simp
  also have "\<dots> \<le> 2 powi (?e + 1)" by (rule two_powi_mono) simp
  finally have x: "x \<le> 2 powi (?e + 1)" by simp
  have s: "(2::real) powi (?e + 1) = 2 powi 53 * ulp x"
    unfolding ulp_def using power_int_add[of "2::real" 53 "?e - 52"]
    by (simp add: algebra_simps)
  have "x / ulp x \<le> 2 powi 53" using x s ulp_pos[of x] by (simp add: pos_divide_le_eq)
  then have "x / ulp x \<le> real_of_int (2 ^ 53)" by simp
  then have "round_half_even (x / ulp x) \<le> round_half_even (real_of_int (2 ^ 53))"
    by (rule round_half_even_mono)
  then have "round_half_even (x / ulp x) \<le> 2 ^ 53" by (simp only: round_half_even_of_int)
  then have "real_of_int (round_half_even (x / ulp x)) \<le> 2 powi 53" by (simp; linarith?)
  then have "double_pos x \<le> 2 powi 53 * ulp x"
    unfolding double_pos_def using ulp_pos[of x] by (simp add: mult_right_mono)
  then show ?thesis using s by simp
qed

lemma double_pos_lower:
  assumes "0 < x" "- 1022 \<le> binexp x"
  shows "2 powi (binexp x) \<le> double_pos x"
proof -
  have u: "ulp x = 2 powi (binexp x - 52)" using assms(2) by (simp add: ulp_def max_def)
  have s: "(2::real) powi (binexp x) = 2 powi 52 * ulp x"
    unfolding u using power_int_add[of "2::real" 52 "binexp x - 52"]
    by (simp add: algebra_simps)
  have "2 powi (binexp x) \<le> x" using binexp_bounds[OF assms(1)] by simp
  then have "2 powi 52 \<le> x / ulp x" using s ulp_pos[of x] by (simp add: pos_le_divide_eq)
  then have "real_of_int (2 ^ 52) \<le> x / ulp x" by simp
  then have "round_half_even (real_of_int (2 ^ 52)) \<le> round_half_even (x / ulp x)"
    by (rule round_half_even_mono)
  then have "2 ^ 52 \<le> round_half_even (x / ulp x)" by (simp only: round_half_even_of_int)
  then have "2 powi 52 \<le> real_of_int (round_half_even (x / ulp x))" by (simp; linarith?)
  then have "2 powi 52 * ulp x \<le> double_pos x"
    unfolding double_pos_def using ulp_pos[of x] by (simp add: mult_right_mono)
  then show ?thesis using s by simp
qed

lemma double_pos_mono:
  assumes "0 \<le> x" "x \<le> y"
  shows "double_pos x \<le> double_pos y"
proof (cases "x = 0")
  case True
  have "double_pos 0 = 0" by (simp add: double_pos_def round_half_even_def)
  then show ?thesis using True double_pos_nonneg[of y] assms by simp
next
  case False
  then have x: "0 < x" and y: "0 < y" using assms by auto
  let ?ex = "max (binexp x) (- 1022)" and ?ey = "max (binexp y) (- 1022)"
  have le: "?ex \<le> ?ey" using binexp_mono[OF x assms(2)] by simp
  show ?thesis
  proof (cases "?ex = ?ey")
    case True
    then have u: "ulp x = ulp y" by (simp add: ulp_def)
    have "x / ulp y \<le> y / ulp y" using assms(2) ulp_pos[of y] by (simp add: divide_right_mono)
    then have "round_half_even (x / ulp y) \<le> round_half_even (y / ulp y)"
      by (rule round_half_even_mono)
    then show ?thesis
      unfolding double_pos_def u using ulp_pos[of y] by (simp add: mult_right_mono)
  next
    case False
    then have lt: "?ex + 1 \<le> ?ey" using le by simp
    then have ey: "?ey = binexp y" "- 1022 \<le> binexp y" by (auto simp: max_def split: if_splits)
    have "double_pos x \<le> 2 powi (?ex + 1)" using x by (rule double_pos_upper)
    also have "\<dots> \<le> 2 powi (binexp y)" using lt ey(1) by (intro two_powi_mono) simp
    also have "\<dots> \<le> double_pos y" using y ey(2) by (rule double_pos_lower)
    finally show ?thesis .
  qed
qed

lemma double_mono:
  assumes "x \<le> y"
  shows "double x \<le> double y"
proof (cases "x < 0")
  case True
  show ?thesis
  proof (cases "y < 0")
    case yn: True
    have "double_pos (- y) \<le> double_pos (- x)" using assms yn by (intro double_pos_mono) simp_all
    then show ?thesis using True yn by (simp add: double_def)
  next
    case False
    have "0 \<le> double_pos (- x)" "0 \<le> double_pos y"
      using True False by (simp_all add: double_pos_nonneg)
    then show ?thesis using True False by (simp add: double_def)
  qed
next
  case False
  then have "double_pos x \<le> double_pos y" using assms by (intro double_pos_mono) simp_all
  then show ?thesis using False assms by (simp add: double_def)
qed

lemma double_0: "double 0 = 0"
  by (simp add: double_def double_pos_def round_half_even_def)

lemma double_1: "double 1 = 1"
  by code_simp

lemma double_nonneg: "0 \<le> x \<Longrightarrow> 0 \<le> double x"
  using double_mono[of 0 x] by (simp add: double_0)

lemma double_le_1: "x \<le> 1 \<Longrightarrow> double x \<le> 1"
  using double_mono[of x 1] by (simp add: double_1)

lemma double_pos_if:
  assumes "1 / 2 ^ 1022 \<le> x"
  shows "0 < double x"
proof -
  have x: "0 < x" using assms by (smt (verit) zero_less_divide_1_iff zero_less_numeral zero_less_power)
  have "(2::real) powi (- 1022) \<le> x" using assms by (simp add: power_int_minus field_simps)
  moreover have "x < 2 powi (binexp x + 1)" using binexp_bounds[OF x] by simp
  ultimately have "(2::real) powi (- 1022) < 2 powi (binexp x + 1)" by linarith
  then have "- 1022 < binexp x + 1" by (rule two_powi_less_cancel)
  then have "- 1022 \<le> binexp x" by simp
  then have "2 powi (binexp x) \<le> double_pos x" using x by (intro double_pos_lower)
  moreover have "(0::real) < 2 powi (binexp x)" by simp
  ultimately have "0 < double_pos x" by linarith
  then show ?thesis using x by (simp add: double_def)
qed

text \<open>
  \<open>round(x, ndigits)\<close> on a float: the exact value of \<open>x\<close> is rounded to the nearest
  multiple of \<open>10 ** -ndigits\<close>, a tie going to the even neighbour, and the result is
  the double nearest to that decimal (CPython rounds the correctly rounded decimal
  string of \<open>x\<close> and reads it back).
\<close>

definition py_round :: "real \<Rightarrow> nat \<Rightarrow> real" where
  "py_round x ndigits = double (of_int (round_half_even (x * 10 ^ ndigits)) / 10 ^ ndigits)"


lemma py_round_mono:
  assumes "x \<le> y"
  shows "py_round x n \<le> py_round y n"
proof -
  have "x * 10 ^ n \<le> y * 10 ^ n" using assms by (simp add: mult_right_mono)
  then have "round_half_even (x * 10 ^ n) \<le> round_half_even (y * 10 ^ n)"
    by (rule round_half_even_mono)
  then have "real_of_int (round_half_even (x * 10 ^ n)) / 10 ^ n
      \<le> real_of_int (round_half_even (y * 10 ^ n)) / 10 ^ n"
    by (simp add: divide_right_mono)
  then show ?thesis unfolding py_round_def by (rule double_mono)
qed

lemma py_round_zero: "py_round 0 n = 0"
  by (simp add: py_round_def round_half_even_def double_0)

text \<open>
  Two roundings in which the doubles show. The double of 1/80 lies above 0.0125, so
  \<open>round(0.0125, 3)\<close> is 0.013 and not the 0.012 that the tie of the decimals would
  give; and \<open>(49 / 80) * 100\<close> is the double above 61.25, which rounds to 61.3.
\<close>

lemma py_round_sobre_empate: "py_round (double (1 / 80)) 3 = double (13 / 1000)"
  by code_simp

lemma py_round_cobertura_49_80:
  "py_round (double (double (49 / 80) * 100)) 1 = double (613 / 10)"
  by code_simp

section \<open>difflib.SequenceMatcher\<close>

text \<open>
  \<open>calcular_similitud\<close> returns \<open>SequenceMatcher(None, texto1, texto2).ratio()\<close>
  of the Python standard library. The matcher is modelled after CPython's
  \<open>difflib.py\<close>, for \<open>isjunk = None\<close> and \<open>autojunk = True\<close>, the arguments the
  engine passes. Indices are natural numbers.
\<close>

text \<open>
  \<open>__chain_b\<close>: \<open>b2j[x]\<close> lists, in increasing order, the indices of \<open>b\<close> that hold
  \<open>x\<close>. When \<open>b\<close> has at least 200 elements, an element that occurs more than
  \<open>len(b) // 100 + 1\<close> times is popular and its entry is deleted; a missing entry
  reads as the empty list (\<open>b2j.get(a[i], nothing)\<close>).
\<close>

definition chain_b :: "'a list \<Rightarrow> 'a \<Rightarrow> nat list" where
  "chain_b b x =
     (let n = length b;
          idxs = filter (\<lambda>j. b ! j = x) [0..<n]
      in if n \<ge> 200 \<and> length idxs > n div 100 + 1 then [] else idxs)"

text \<open>\<open>j2len.get(j-1, 0)\<close>; the key \<open>-1\<close> is never stored.\<close>

definition j2lenget :: "(nat \<rightharpoonup> nat) \<Rightarrow> nat \<Rightarrow> nat" where
  "j2lenget j2len j =
     (if j = 0 then 0 else case j2len (j - 1) of None \<Rightarrow> 0 | Some v \<Rightarrow> v)"

text \<open>
  The inner loop of \<open>find_longest_match\<close> over \<open>b2j[a[i]]\<close>: an index below \<open>blo\<close>
  is skipped, the first index at or above \<open>bhi\<close> ends the loop. The state is
  \<open>newj2len\<close> and the best block \<open>(besti, bestj, bestsize)\<close> so far.
\<close>

fun flm_inner ::
  "(nat \<rightharpoonup> nat) \<Rightarrow> nat \<Rightarrow> nat \<Rightarrow> nat \<Rightarrow> nat list
     \<Rightarrow> (nat \<rightharpoonup> nat) \<times> (nat \<times> nat \<times> nat) \<Rightarrow> (nat \<rightharpoonup> nat) \<times> (nat \<times> nat \<times> nat)" where
  "flm_inner j2len i blo bhi [] st = st"
| "flm_inner j2len i blo bhi (j # js) (newj2len, (besti, bestj, bestsize)) =
     (if j < blo then flm_inner j2len i blo bhi js (newj2len, (besti, bestj, bestsize))
      else if j \<ge> bhi then (newj2len, (besti, bestj, bestsize))
      else
        let k = j2lenget j2len j + 1
        in if k > bestsize
           then flm_inner j2len i blo bhi js (newj2len(j \<mapsto> k), (i + 1 - k, j + 1 - k, k))
           else flm_inner j2len i blo bhi js (newj2len(j \<mapsto> k), (besti, bestj, bestsize)))"

text \<open>The outer loop \<open>for i in range(alo, ahi)\<close>; the state is \<open>j2len\<close> and the best
  block.\<close>

fun flm_outer ::
  "'a list \<Rightarrow> ('a \<Rightarrow> nat list) \<Rightarrow> nat \<Rightarrow> nat \<Rightarrow> nat list
     \<Rightarrow> (nat \<rightharpoonup> nat) \<times> (nat \<times> nat \<times> nat) \<Rightarrow> (nat \<rightharpoonup> nat) \<times> (nat \<times> nat \<times> nat)" where
  "flm_outer a b2j blo bhi [] st = st"
| "flm_outer a b2j blo bhi (i # is) (j2len, best) =
     flm_outer a b2j blo bhi is (flm_inner j2len i blo bhi (b2j (a ! i)) (Map.empty, best))"

text \<open>
  The two loops that extend the best block by equal elements on each side. No element
  is junk (\<open>isjunk\<close> is \<open>None\<close>, so \<open>bjunk\<close> is empty): the test \<open>not isbjunk(...)\<close> is
  always true, and the two further loops over junk elements never run.
\<close>

function extend_left ::
  "'a list \<Rightarrow> 'a list \<Rightarrow> nat \<Rightarrow> nat \<Rightarrow> nat \<times> nat \<times> nat \<Rightarrow> nat \<times> nat \<times> nat" where
  "extend_left a b alo blo (besti, bestj, bestsize) =
     (if besti > alo \<and> bestj > blo \<and> a ! (besti - 1) = b ! (bestj - 1)
      then extend_left a b alo blo (besti - 1, bestj - 1, bestsize + 1)
      else (besti, bestj, bestsize))"
  by pat_completeness auto
termination
  by (relation "measure (\<lambda>(a, b, alo, blo, besti, bestj, bestsize). besti)") auto

function extend_right ::
  "'a list \<Rightarrow> 'a list \<Rightarrow> nat \<Rightarrow> nat \<Rightarrow> nat \<times> nat \<times> nat \<Rightarrow> nat \<times> nat \<times> nat" where
  "extend_right a b ahi bhi (besti, bestj, bestsize) =
     (if besti + bestsize < ahi \<and> bestj + bestsize < bhi
         \<and> a ! (besti + bestsize) = b ! (bestj + bestsize)
      then extend_right a b ahi bhi (besti, bestj, bestsize + 1)
      else (besti, bestj, bestsize))"
  by pat_completeness auto
termination
  by (relation "measure (\<lambda>(a, b, ahi, bhi, besti, bestj, bestsize). ahi - (besti + bestsize))")
     auto

definition find_longest_match ::
  "'a list \<Rightarrow> 'a list \<Rightarrow> nat \<Rightarrow> nat \<Rightarrow> nat \<Rightarrow> nat \<Rightarrow> nat \<times> nat \<times> nat" where
  "find_longest_match a b alo ahi blo bhi =
     (let best = snd (flm_outer a (chain_b b) blo bhi [alo..<ahi] (Map.empty, (alo, blo, 0)))
      in extend_right a b ahi bhi (extend_left a b alo blo best))"

text \<open>
  Bounds of the block that \<open>find_longest_match\<close> returns. They are needed for the
  termination of the loop of \<open>get_matching_blocks\<close>, so they are proved here.
  \<open>row_ok\<close> bounds the entries of \<open>j2len\<close>, \<open>best_ok\<close> says that the best block is
  the initial empty one or lies inside \<open>a[alo:ahi]\<close> and \<open>b[blo:bhi]\<close>.
\<close>

definition best_ok :: "nat \<Rightarrow> nat \<Rightarrow> nat \<Rightarrow> nat \<Rightarrow> nat \<times> nat \<times> nat \<Rightarrow> bool" where
  "best_ok alo ahi blo bhi best = (case best of (bi, bj, bs) \<Rightarrow>
     (bs = 0 \<and> bi = alo \<and> bj = blo) \<or> (alo \<le> bi \<and> bi + bs \<le> ahi \<and> blo \<le> bj \<and> bj + bs \<le> bhi))"

definition row_ok :: "nat \<Rightarrow> nat \<Rightarrow> nat \<Rightarrow> (nat \<rightharpoonup> nat) \<Rightarrow> bool" where
  "row_ok alo blo n j2len = (\<forall>j v. j2len j = Some v \<longrightarrow> v \<le> n \<and> v \<le> j + 1 - blo \<and> blo \<le> j)"

lemma j2lenget_le:
  assumes "row_ok alo blo n j2len" "blo \<le> j"
  shows "j2lenget j2len j \<le> n \<and> j2lenget j2len j \<le> j - blo"
proof (cases "j = 0")
  case True
  then show ?thesis by (simp add: j2lenget_def)
next
  case False
  show ?thesis
  proof (cases "j2len (j - 1)")
    case None
    then show ?thesis using False by (simp add: j2lenget_def)
  next
    case (Some v)
    then have "v \<le> n \<and> v \<le> (j - 1) + 1 - blo \<and> blo \<le> j - 1"
      using assms(1) unfolding row_ok_def by blast
    then show ?thesis using False Some by (simp add: j2lenget_def)
  qed
qed

lemma flm_inner_inv:
  assumes "row_ok alo blo (i - alo) j2len" "alo \<le> i" "i < ahi"
    and "row_ok alo blo (i + 1 - alo) nj" "best_ok alo ahi blo bhi best"
  shows "row_ok alo blo (i + 1 - alo) (fst (flm_inner j2len i blo bhi js (nj, best)))
     \<and> best_ok alo ahi blo bhi (snd (flm_inner j2len i blo bhi js (nj, best)))"
  using assms(4,5)
proof (induction js arbitrary: nj best)
  case Nil
  then show ?case by simp
next
  case (Cons j js)
  obtain bi bj bs where best: "best = (bi, bj, bs)" by (cases best) auto
  show ?case
  proof (cases "j < blo")
    case True
    then show ?thesis using Cons best by simp
  next
    case nlo: False
    show ?thesis
    proof (cases "j \<ge> bhi")
      case True
      then show ?thesis using Cons best nlo by simp
    next
      case False
      define k where "k = j2lenget j2len j + 1"
      have kb: "k \<le> i + 1 - alo" "k \<le> j + 1 - blo" "1 \<le> k"
        using j2lenget_le[OF assms(1), of j] nlo assms(2) by (auto simp: k_def)
      have r: "row_ok alo blo (i + 1 - alo) (nj(j \<mapsto> k))"
        using Cons.prems(1) kb nlo unfolding row_ok_def by auto
      have b: "best_ok alo ahi blo bhi (i + 1 - k, j + 1 - k, k)"
        using kb False nlo assms(2,3) unfolding best_ok_def by auto
      have step: "flm_inner j2len i blo bhi (j # js) (nj, (bi, bj, bs)) =
          (if k > bs then flm_inner j2len i blo bhi js (nj(j \<mapsto> k), (i + 1 - k, j + 1 - k, k))
           else flm_inner j2len i blo bhi js (nj(j \<mapsto> k), (bi, bj, bs)))"
        using nlo False by (simp add: k_def Let_def)
      show ?thesis
        unfolding best step
        using Cons.IH[OF r b] Cons.IH[OF r Cons.prems(2)[unfolded best]]
        by (cases "k > bs") (simp_all only: if_True if_False)
    qed
  qed
qed


lemma flm_outer_inv:
  assumes "alo \<le> m" "row_ok alo blo (m - alo) j2len" "best_ok alo ahi blo bhi best"
  shows "best_ok alo ahi blo bhi (snd (flm_outer a b2j blo bhi [m..<ahi] (j2len, best)))"
  using assms
proof (induction "ahi - m" arbitrary: m j2len best)
  case 0
  then show ?case by simp
next
  case (Suc n)
  then have lt: "m < ahi" by simp
  have inv: "row_ok alo blo (m + 1 - alo) (fst (flm_inner j2len m blo bhi (b2j (a ! m)) (Map.empty, best)))
     \<and> best_ok alo ahi blo bhi (snd (flm_inner j2len m blo bhi (b2j (a ! m)) (Map.empty, best)))"
    by (rule flm_inner_inv[OF Suc.prems(2) Suc.prems(1) lt _ Suc.prems(3)]) (simp add: row_ok_def)
  obtain nj nb where st: "flm_inner j2len m blo bhi (b2j (a ! m)) (Map.empty, best) = (nj, nb)"
    by (cases "flm_inner j2len m blo bhi (b2j (a ! m)) (Map.empty, best)") auto
  have "best_ok alo ahi blo bhi (snd (flm_outer a b2j blo bhi [Suc m..<ahi] (nj, nb)))"
    using Suc.hyps(1)[of "Suc m" nj nb] Suc.hyps(2) Suc.prems(1) inv st by simp
  then show ?case using lt st by (simp add: upt_rec[of m ahi])
qed

lemma extend_left_ok:
  "best_ok alo ahi blo bhi best \<Longrightarrow> best_ok alo ahi blo bhi (extend_left a b alo blo best)"
proof (induction a b alo blo best rule: extend_left.induct)
  case (1 a b alo blo besti bestj bestsize)
  show ?case
  proof (cases "besti > alo \<and> bestj > blo \<and> a ! (besti - 1) = b ! (bestj - 1)")
    case True
    have "best_ok alo ahi blo bhi (besti - 1, bestj - 1, bestsize + 1)"
      using "1.prems" True unfolding best_ok_def by auto
    from "1.IH"[OF True this] show ?thesis
      by (subst extend_left.simps) (simp only: True if_True simp_thms)
  next
    case False
    show ?thesis
      by (subst extend_left.simps) (simp only: False if_False "1.prems" simp_thms)
  qed
qed

lemma extend_right_ok:
  "best_ok alo ahi blo bhi best \<Longrightarrow> best_ok alo ahi blo bhi (extend_right a b ahi bhi best)"
proof (induction a b ahi bhi best rule: extend_right.induct)
  case (1 a b ahi bhi besti bestj bestsize)
  show ?case
  proof (cases "besti + bestsize < ahi \<and> bestj + bestsize < bhi
         \<and> a ! (besti + bestsize) = b ! (bestj + bestsize)")
    case True
    have "best_ok alo ahi blo bhi (besti, bestj, bestsize + 1)"
      using "1.prems" True unfolding best_ok_def by auto
    from "1.IH"[OF True this] show ?thesis
      by (subst extend_right.simps) (simp only: True if_True simp_thms)
  next
    case False
    show ?thesis
      by (subst extend_right.simps) (simp only: False if_False "1.prems" simp_thms)
  qed
qed

lemma find_longest_match_ok:
  "best_ok alo ahi blo bhi (find_longest_match a b alo ahi blo bhi)"
proof -
  have 0: "best_ok alo ahi blo bhi (alo, blo, 0)" by (simp add: best_ok_def)
  have 1: "row_ok alo blo (alo - alo) Map.empty" by (simp add: row_ok_def)
  have 2: "best_ok alo ahi blo bhi
     (snd (flm_outer a (chain_b b) blo bhi [alo..<ahi] (Map.empty, (alo, blo, 0))))"
    by (rule flm_outer_inv[OF le_refl 1 0])
  show ?thesis
    unfolding find_longest_match_def Let_def
    by (rule extend_right_ok[OF extend_left_ok[OF 2]])
qed

lemma find_longest_match_bounds:
  assumes "find_longest_match a b alo ahi blo bhi = (i, j, k)" "k \<noteq> 0"
  shows "alo \<le> i \<and> i + k \<le> ahi \<and> blo \<le> j \<and> j + k \<le> bhi"
  using find_longest_match_ok[of alo ahi blo bhi a b] assms by (simp add: best_ok_def)


lemma find_longest_match_bounds_sym:
  assumes "(i, j, k) = find_longest_match a b alo ahi blo bhi" "0 < k"
  shows "alo \<le> i \<and> i + k \<le> ahi \<and> blo \<le> j \<and> j + k \<le> bhi"
  using find_longest_match_bounds[OF assms(1)[symmetric]] assms(2) by simp

text \<open>
  The loop of \<open>get_matching_blocks\<close>. \<open>queue\<close> is used as a stack (\<open>pop()\<close> and
  \<open>append\<close> work on its end): the head of the model's list is the last element of
  the Python list.
\<close>

function gmb_loop ::
  "'a list \<Rightarrow> 'a list \<Rightarrow> (nat \<times> nat \<times> nat \<times> nat) list \<Rightarrow> (nat \<times> nat \<times> nat) list
     \<Rightarrow> (nat \<times> nat \<times> nat) list" where
  "gmb_loop a b [] matching_blocks = matching_blocks"
| "gmb_loop a b ((alo, ahi, blo, bhi) # queue) matching_blocks =
     (case find_longest_match a b alo ahi blo bhi of (i, j, k) \<Rightarrow>
        if k \<noteq> 0
        then gmb_loop a b
               ((if i + k < ahi \<and> j + k < bhi then [(i + k, ahi, j + k, bhi)] else [])
                 @ (if alo < i \<and> blo < j then [(alo, i, blo, j)] else []) @ queue)
               (matching_blocks @ [(i, j, k)])
        else gmb_loop a b queue matching_blocks)"
  by pat_completeness auto
termination
proof (relation "measure (\<lambda>(a, b, queue, mb).
          sum_list (map (\<lambda>(alo, ahi, blo, bhi). 2 * (ahi - alo) + 1) queue))", goal_cases)
  case 1
  then show ?case by simp
next
  case prems: 2
  then show ?case by (auto dest!: find_longest_match_bounds_sym)
next
  case 3
  then show ?case by simp
qed

text \<open>The loop that collapses adjacent blocks; the state is \<open>(i1, j1, k1)\<close> and
  \<open>non_adjacent\<close>.\<close>

fun collapse_loop ::
  "(nat \<times> nat \<times> nat) list \<Rightarrow> (nat \<times> nat \<times> nat) \<times> (nat \<times> nat \<times> nat) list
     \<Rightarrow> (nat \<times> nat \<times> nat) \<times> (nat \<times> nat \<times> nat) list" where
  "collapse_loop [] st = st"
| "collapse_loop ((i2, j2, k2) # rest) ((i1, j1, k1), non_adjacent) =
     (if i1 + k1 = i2 \<and> j1 + k1 = j2
      then collapse_loop rest ((i1, j1, k1 + k2), non_adjacent)
      else collapse_loop rest
             ((i2, j2, k2), if k1 \<noteq> 0 then non_adjacent @ [(i1, j1, k1)] else non_adjacent))"

text \<open>\<open>matching_blocks.sort()\<close> orders the triples lexicographically, as the order on
  products does.\<close>

definition get_matching_blocks :: "'a list \<Rightarrow> 'a list \<Rightarrow> (nat \<times> nat \<times> nat) list" where
  "get_matching_blocks a b =
     (let la = length a; lb = length b;
          matching_blocks = sort (gmb_loop a b [(0, la, 0, lb)] [])
      in case collapse_loop matching_blocks ((0, 0, 0), []) of
           ((i1, j1, k1), non_adjacent) \<Rightarrow>
             (if k1 \<noteq> 0 then non_adjacent @ [(i1, j1, k1)] else non_adjacent) @ [(la, lb, 0)])"

text \<open>
  \<open>_calculate_ratio\<close> and \<open>ratio\<close>. In \<open>2.0 * matches / length\<close> the product is exact
  and the quotient is rounded once; the two integers are below \<open>2 ^ 53\<close>, so their
  conversion to float is exact.
\<close>

definition calculate_ratio :: "nat \<Rightarrow> nat \<Rightarrow> real" where
  "calculate_ratio matches len =
     (if len \<noteq> 0 then double (2 * real matches / real len) else 1)"

definition ratio :: "'a list \<Rightarrow> 'a list \<Rightarrow> real" where
  "ratio a b =
     (let matches = sum_list (map (\<lambda>(i, j, k). k) (get_matching_blocks a b))
      in calculate_ratio matches (length a + length b))"

section \<open>utils/text\_utils.py\<close>

definition calcular_similitud :: "string \<Rightarrow> string \<Rightarrow> real" where
  "calcular_similitud texto1 texto2 = ratio texto1 texto2"


definition normalizar_texto :: "string \<Rightarrow> string" where
  "normalizar_texto texto =
     (let t1 = py_lower (py_strip texto);
          t2 = map quitar_acento t1;
          t3 = re_sub_runs (\<lambda>c. \<not> es_alfanumerico c) t2
      in py_strip (re_sub_runs py_isspace t3))"

text \<open>\<open>construir_candidatos\<close>: the pairs (original, normalised), in column order.\<close>

definition construir_candidatos :: "string list \<Rightarrow> (string \<times> string) list" where
  "construir_candidatos columnas = map (\<lambda>columna. (columna, normalizar_texto columna)) columnas"


section \<open>Python built-ins of the engine\<close>

text \<open>\<open>str(x) if x else None\<close>: \<open>None\<close> and the empty string are falsy.\<close>

definition str_if_truthy :: "string option \<Rightarrow> string option" where
  "str_if_truthy x = (case x of None \<Rightarrow> None | Some s \<Rightarrow> if s = [] then None else Some s)"

text \<open>\<open>str(n)\<close> of a non-negative integer: its decimal digits.\<close>

function str_nat :: "nat \<Rightarrow> string" where
  "str_nat n = (if n < 10 then [char_of (48 + n)] else str_nat (n div 10) @ [char_of (48 + n mod 10)])"
  by pat_completeness auto
termination
  by (relation "measure (\<lambda>n. n)") auto

text \<open>\<open>sep.join(xs)\<close>.\<close>

fun py_join :: "string \<Rightarrow> string list \<Rightarrow> string" where
  "py_join sep [] = []"
| "py_join sep [x] = x"
| "py_join sep (x # y # ys) = x @ sep @ py_join sep (y # ys)"

section \<open>config/settings.py\<close>

text \<open>The literal \<open>0.6\<close> is the double nearest to 6/10.\<close>

definition SIMILARITY_THRESHOLD :: real where
  "SIMILARITY_THRESHOLD = double (6 / 10)"

section \<open>services/similarity\_engine.py\<close>

record SimilarityEngine =
  umbral_similitud :: real

text \<open>
  The dictionary that a search returns. A key that a policy does not set is \<open>None\<close>:
  the standard policy sets no \<open>notas\<close> and no \<open>detalles\<close>, the diet policy sets no
  \<open>umbral_usado\<close>, and \<open>variable\<close> is set by \<open>buscar_todas_variables\<close> only.
\<close>

record detalles_dieta =
  frutas :: "(string \<times> real \<times> string) list"
  vegetales :: "(string \<times> real \<times> string) list"
  generales :: "(string \<times> real \<times> string) list"

record resultado =
  encontrada :: bool
  columna :: "string option"
  confianza :: real
  sinonimo_match :: "string option"
  umbral_usado :: "real option"
  notas :: "string option"
  detalles :: "detalles_dieta option"
  variable :: "string option"



text \<open>\<open>__init__\<close>: \<open>umbral_similitud or Config.SIMILARITY_THRESHOLD\<close>; \<open>None\<close> and
  \<open>0.0\<close> are falsy.\<close>

definition init :: "real option \<Rightarrow> SimilarityEngine" where
  "init umbral =
     \<lparr>umbral_similitud =
        (case umbral of None \<Rightarrow> SIMILARITY_THRESHOLD
         | Some u \<Rightarrow> if u = 0 then SIMILARITY_THRESHOLD else u)\<rparr>"

text \<open>
  \<open>buscar_variable_simple\<close>. The state of the two loops is
  \<open>(mejor_columna, mejor_score, mejor_sinonimo)\<close>; the inner loop runs over
  \<open>zip(sinonimos, sinonimos_norm)\<close>.
\<close>

fun simple_inner ::
  "string \<Rightarrow> string \<Rightarrow> (string \<times> string) list
     \<Rightarrow> string option \<times> real \<times> string option \<Rightarrow> string option \<times> real \<times> string option" where
  "simple_inner original normalizado [] st = st"
| "simple_inner original normalizado ((sinonimo, sinonimo_norm) # rest)
       (mejor_columna, mejor_score, mejor_sinonimo) =
     (let score = calcular_similitud normalizado sinonimo_norm
      in if score > mejor_score
         then simple_inner original normalizado rest (Some original, score, Some sinonimo)
         else simple_inner original normalizado rest (mejor_columna, mejor_score, mejor_sinonimo))"

fun simple_outer ::
  "(string \<times> string) list \<Rightarrow> (string \<times> string) list
     \<Rightarrow> string option \<times> real \<times> string option \<Rightarrow> string option \<times> real \<times> string option" where
  "simple_outer [] zs st = st"
| "simple_outer ((original, normalizado) # candidatos) zs st =
     simple_outer candidatos zs (simple_inner original normalizado zs st)"

definition buscar_variable_simple ::
  "SimilarityEngine \<Rightarrow> string \<Rightarrow> string list \<Rightarrow> string list \<Rightarrow> resultado" where
  "buscar_variable_simple self variable_key sinonimos columnas =
     (let candidatos = construir_candidatos columnas;
          sinonimos_norm = map normalizar_texto sinonimos
      in case simple_outer candidatos (zip sinonimos sinonimos_norm) (None, 0, None) of
           (mejor_columna, mejor_score, mejor_sinonimo) \<Rightarrow>
             \<lparr>encontrada = (mejor_score \<ge> umbral_similitud self),
              columna = str_if_truthy mejor_columna,
              confianza = py_round mejor_score 3,
              sinonimo_match = str_if_truthy mejor_sinonimo,
              umbral_usado = Some (umbral_similitud self),
              notas = None, detalles = None, variable = None\<rparr>)"

text \<open>
  \<open>buscar_variable_dieta_especial\<close>. The state of the two loops is the three lists
  \<open>(coincidencias_frutas, coincidencias_vegetales, coincidencias_generales)\<close>;
  \<open>palabra in normalizado\<close> is the substring test.
\<close>

definition palabras_frutas :: "string list" where
  "palabras_frutas = [''frut'', ''fruit'']"

definition palabras_vegetales :: "string list" where
  "palabras_vegetales = [''vegetal'', ''verdura'', ''vegetable'']"

type_synonym coincidencia = "string \<times> real \<times> string"

fun dieta_inner ::
  "real \<Rightarrow> string \<Rightarrow> string \<Rightarrow> string list
     \<Rightarrow> coincidencia list \<times> coincidencia list \<times> coincidencia list
     \<Rightarrow> coincidencia list \<times> coincidencia list \<times> coincidencia list" where
  "dieta_inner umbral original normalizado [] st = st"
| "dieta_inner umbral original normalizado (sinonimo # rest)
       (coincidencias_frutas, coincidencias_vegetales, coincidencias_generales) =
     (let sinonimo_norm = normalizar_texto sinonimo;
          score = calcular_similitud normalizado sinonimo_norm
      in if score \<ge> umbral
         then if list_ex (\<lambda>palabra. sublist palabra normalizado) palabras_frutas
              then dieta_inner umbral original normalizado rest
                     (coincidencias_frutas @ [(original, score, sinonimo)],
                      coincidencias_vegetales, coincidencias_generales)
              else if list_ex (\<lambda>palabra. sublist palabra normalizado) palabras_vegetales
              then dieta_inner umbral original normalizado rest
                     (coincidencias_frutas,
                      coincidencias_vegetales @ [(original, score, sinonimo)],
                      coincidencias_generales)
              else dieta_inner umbral original normalizado rest
                     (coincidencias_frutas, coincidencias_vegetales,
                      coincidencias_generales @ [(original, score, sinonimo)])
         else dieta_inner umbral original normalizado rest
                (coincidencias_frutas, coincidencias_vegetales, coincidencias_generales))"

fun dieta_outer ::
  "real \<Rightarrow> (string \<times> string) list \<Rightarrow> string list
     \<Rightarrow> coincidencia list \<times> coincidencia list \<times> coincidencia list
     \<Rightarrow> coincidencia list \<times> coincidencia list \<times> coincidencia list" where
  "dieta_outer umbral [] sinonimos st = st"
| "dieta_outer umbral ((original, normalizado) # candidatos) sinonimos st =
     dieta_outer umbral candidatos sinonimos (dieta_inner umbral original normalizado sinonimos st)"

text \<open>\<open>sort(key=lambda x: x[1], reverse=True)\<close>: a stable sort by descending score.\<close>

definition ordenar_por_score :: "coincidencia list \<Rightarrow> coincidencia list" where
  "ordenar_por_score xs = sort_key (\<lambda>x. - fst (snd x)) xs"

definition buscar_variable_dieta_especial ::
  "SimilarityEngine \<Rightarrow> string list \<Rightarrow> string list \<Rightarrow> resultado" where
  "buscar_variable_dieta_especial self sinonimos columnas =
     (let candidatos = construir_candidatos columnas
      in case dieta_outer (umbral_similitud self) candidatos sinonimos ([], [], []) of
           (coincidencias_frutas, coincidencias_vegetales, coincidencias_generales) \<Rightarrow>
             (let todas_coincidencias =
                    coincidencias_frutas @ coincidencias_vegetales @ coincidencias_generales
              in if todas_coincidencias \<noteq> []
                 then
                   (let mejor_match = hd (ordenar_por_score todas_coincidencias);
                        notas1 = (if coincidencias_frutas \<noteq> []
                                  then [''Frutas detectadas: ''
                                         @ str_nat (length coincidencias_frutas) @ '' columna(s)'']
                                  else []);
                        notas2 = (if coincidencias_vegetales \<noteq> []
                                  then notas1 @ [''Vegetales detectados: ''
                                         @ str_nat (length coincidencias_vegetales) @ '' columna(s)'']
                                  else notas1);
                        notas3 = (if coincidencias_generales \<noteq> []
                                  then notas2 @ [''Dieta general: ''
                                         @ str_nat (length coincidencias_generales) @ '' columna(s)'']
                                  else notas2)
                    in \<lparr>encontrada = True,
                        columna = Some (fst mejor_match),
                        confianza = py_round (fst (snd mejor_match)) 3,
                        sinonimo_match = Some (snd (snd mejor_match)),
                        umbral_usado = None,
                        notas = Some (py_join ''; '' notas3),
                        detalles = Some \<lparr>frutas = coincidencias_frutas,
                                          vegetales = coincidencias_vegetales,
                                          generales = coincidencias_generales\<rparr>,
                        variable = None\<rparr>)
                 else
                   \<lparr>encontrada = False,
                    columna = None,
                    confianza = 0,
                    sinonimo_match = None,
                    umbral_usado = None,
                    notas = Some ''No se encontraron coincidencias de dieta'',
                    detalles = Some \<lparr>frutas = [], vegetales = [], generales = []\<rparr>,
                    variable = None\<rparr>))"

definition buscar_variable ::
  "SimilarityEngine \<Rightarrow> string \<Rightarrow> string list \<Rightarrow> string list \<Rightarrow> resultado" where
  "buscar_variable self variable_key sinonimos columnas =
     (if py_lower variable_key = ''dieta''
      then buscar_variable_dieta_especial self sinonimos columnas
      else buscar_variable_simple self variable_key sinonimos columnas)"

text \<open>\<open>buscar_todas_variables\<close>: \<open>variables_config\<close> is a dictionary read in insertion
  order, modelled as the list of its items.\<close>

definition buscar_todas_variables ::
  "SimilarityEngine \<Rightarrow> (string \<times> string list) list \<Rightarrow> string list \<Rightarrow> resultado list" where
  "buscar_todas_variables self variables_config columnas =
     map (\<lambda>(variable_key, sinonimos).
            (buscar_variable self variable_key sinonimos columnas)\<lparr>variable := Some variable_key\<rparr>)
         variables_config"


definition ajustar_umbral :: "SimilarityEngine \<Rightarrow> real \<Rightarrow> SimilarityEngine \<times> bool" where
  "ajustar_umbral self nuevo_umbral =
     (if 0 \<le> nuevo_umbral \<and> nuevo_umbral \<le> 1
      then (self\<lparr>umbral_similitud := nuevo_umbral\<rparr>, True)
      else (self, False))"

section \<open>Properties of the matcher\<close>

text \<open>
  \<open>pares_puntuados\<close> lists the triples (column, score, synonym) of every pair in the
  order the loops visit them: columns in the outer loop, synonyms in the inner one.
  \<open>paso_mejor\<close> is one step of the loop of the standard policy.
\<close>

definition pares_puntuados :: "string list \<Rightarrow> string list \<Rightarrow> coincidencia list" where
  "pares_puntuados sinonimos columnas =
     concat (map (\<lambda>c. map (\<lambda>s. (c, calcular_similitud (normalizar_texto c) (normalizar_texto s), s))
                        sinonimos) columnas)"

definition paso_mejor ::
  "string option \<times> real \<times> string option \<Rightarrow> coincidencia \<Rightarrow> string option \<times> real \<times> string option" where
  "paso_mejor st t = (if fst (snd t) > fst (snd st) then (Some (fst t), fst (snd t), Some (snd (snd t))) else st)"


lemma simple_inner_foldl:
  "simple_inner c (normalizar_texto c) (zip ss (map normalizar_texto ss)) st =
   foldl paso_mejor st (map (\<lambda>s. (c, calcular_similitud (normalizar_texto c) (normalizar_texto s), s)) ss)"
proof (induction ss arbitrary: st)
  case Nil
  then show ?case by simp
next
  case (Cons s ss)
  obtain mc ms msin where st: "st = (mc, ms, msin)" by (cases st) auto
  show ?case unfolding st by (simp add: Let_def paso_mejor_def Cons.IH)
qed

lemma simple_outer_foldl:
  "simple_outer (construir_candidatos cs) (zip ss (map normalizar_texto ss)) st =
   foldl paso_mejor st (pares_puntuados ss cs)"
proof (induction cs arbitrary: st)
  case Nil
  then show ?case by (simp add: construir_candidatos_def pares_puntuados_def)
next
  case (Cons c cs)
  have "simple_outer (construir_candidatos (c # cs)) (zip ss (map normalizar_texto ss)) st =
        simple_outer (construir_candidatos cs) (zip ss (map normalizar_texto ss))
          (simple_inner c (normalizar_texto c) (zip ss (map normalizar_texto ss)) st)"
    by (simp add: construir_candidatos_def)
  then show ?case
    by (simp add: Cons.IH simple_inner_foldl pares_puntuados_def)
qed



lemma foldl_paso_mejor_zero:
  assumes "\<forall>t\<in>set ts. fst (snd t) \<le> 0"
  shows "foldl paso_mejor (None, 0, None) ts = (None, 0, None)"
  using assms by (induction ts) (auto simp: paso_mejor_def)

text \<open>
  Claim C10. In the standard policy, when every computed score is 0, the result has no
  column and no matched synonym although candidate columns exist; with the threshold 0
  the result is nevertheless found.
\<close>

theorem simple_all_scores_zero:
  assumes "\<forall>c\<in>set columnas. \<forall>s\<in>set sinonimos.
             calcular_similitud (normalizar_texto c) (normalizar_texto s) = 0"
  shows "columna (buscar_variable_simple self variable_key sinonimos columnas) = None
       \<and> sinonimo_match (buscar_variable_simple self variable_key sinonimos columnas) = None
       \<and> (umbral_similitud self = 0 \<longrightarrow>
            encontrada (buscar_variable_simple self variable_key sinonimos columnas))"
proof -
  have "\<forall>t\<in>set (pares_puntuados sinonimos columnas). fst (snd t) \<le> 0"
    using assms by (auto simp: pares_puntuados_def)
  then have "foldl paso_mejor (None, 0, None) (pares_puntuados sinonimos columnas) = (None, 0, None)"
    by (rule foldl_paso_mejor_zero)
  then show ?thesis
    by (simp add: buscar_variable_simple_def Let_def simple_outer_foldl str_if_truthy_def)
qed

theorem simple_all_scores_zero_witness:
  "calcular_similitud (normalizar_texto ''xyz'') (normalizar_texto ''abc'') = 0
   \<and> columna (buscar_variable_simple \<lparr>umbral_similitud = 0\<rparr> ''glucosa'' [''abc''] [''xyz'']) = None
   \<and> sinonimo_match (buscar_variable_simple \<lparr>umbral_similitud = 0\<rparr> ''glucosa'' [''abc''] [''xyz'']) = None
   \<and> encontrada (buscar_variable_simple \<lparr>umbral_similitud = 0\<rparr> ''glucosa'' [''abc''] [''xyz''])"
proof -
  have h: "calcular_similitud (normalizar_texto ''xyz'') (normalizar_texto ''abc'') = 0"
    by code_simp
  then have "\<forall>c\<in>set [''xyz'']. \<forall>s\<in>set [''abc''].
             calcular_similitud (normalizar_texto c) (normalizar_texto s) = 0"
    by simp
  from simple_all_scores_zero[OF this, of "\<lparr>umbral_similitud = 0\<rparr>" "''glucosa''"] h
  show ?thesis by simp
qed

text \<open>
  Claim C5. With an empty column list the standard policy returns the confidence 0 and
  no column, and its result is found exactly when the threshold is not positive. At the
  threshold 0, which \<open>ajustar_umbral\<close> accepts, the variable is therefore reported as
  found although no column exists, where the diet policy on the same input reports it
  as not found.
\<close>

theorem simple_empty_columns:
  "encontrada (buscar_variable_simple self variable_key sinonimos [])
     = (umbral_similitud self \<le> 0)
   \<and> confianza (buscar_variable_simple self variable_key sinonimos []) = 0
   \<and> columna (buscar_variable_simple self variable_key sinonimos []) = None
   \<and> \<not> encontrada (buscar_variable_dieta_especial self sinonimos [])"
  by (simp add: buscar_variable_simple_def buscar_variable_dieta_especial_def
      construir_candidatos_def py_round_zero str_if_truthy_def)

lemma umbral_defecto: "SIMILARITY_THRESHOLD = 5404319552844595 / 9007199254740992"
  by code_simp

theorem simple_empty_columns_threshold_zero:
  "snd (ajustar_umbral (init None) 0)
   \<and> encontrada (buscar_variable_simple (fst (ajustar_umbral (init None) 0))
        ''glucosa'' [''glucose''] [])
   \<and> confianza (buscar_variable_simple (fst (ajustar_umbral (init None) 0))
        ''glucosa'' [''glucose''] []) = 0
   \<and> columna (buscar_variable_simple (fst (ajustar_umbral (init None) 0))
        ''glucosa'' [''glucose''] []) = None
   \<and> \<not> encontrada (buscar_variable_dieta_especial (fst (ajustar_umbral (init None) 0))
        [''glucose''] [])
   \<and> \<not> encontrada (buscar_variable_simple (init None) ''glucosa'' [''glucose''] [])"
proof -
  have u: "snd (ajustar_umbral (init None) 0)"
    "umbral_similitud (fst (ajustar_umbral (init None) 0)) = 0"
    by (simp_all add: ajustar_umbral_def)
  have d: "\<not> umbral_similitud (init None) \<le> 0"
    by (simp add: init_def umbral_defecto)
  from simple_empty_columns[of "fst (ajustar_umbral (init None) 0)" "''glucosa''" "[''glucose'']"]
    simple_empty_columns[of "init None" "''glucosa''" "[''glucose'']"] u d
  show ?thesis by simp
qed

lemma notas_dieta: "notas (buscar_variable_dieta_especial self sinonimos columnas) \<noteq> None"
  by (simp add: buscar_variable_dieta_especial_def Let_def split: prod.splits)

lemma notas_simple: "notas (buscar_variable_simple self variable_key sinonimos columnas) = None"
  by (simp add: buscar_variable_simple_def Let_def split: prod.splits)

text \<open>
  Claim C2, amended. The diet policy is applied exactly to the keys whose lower-cased
  form is \<open>dieta\<close>; every other key, \<open>diet\<close> included, gets the standard policy.
  The evaluation of the key \<open>diet\<close> after the theorem gives a result with no notes,
  which the diet policy always sets and the standard policy never does.
\<close>

theorem buscar_variable_dispatch:
  "(py_lower variable_key = ''dieta'' \<longrightarrow>
      buscar_variable self variable_key sinonimos columnas
        = buscar_variable_dieta_especial self sinonimos columnas)
   \<and> (py_lower variable_key \<noteq> ''dieta'' \<longrightarrow>
      buscar_variable self variable_key sinonimos columnas
        = buscar_variable_simple self variable_key sinonimos columnas)
   \<and> (notas (buscar_variable self variable_key sinonimos columnas) \<noteq> None)
        = (py_lower variable_key = ''dieta'')"
  using notas_dieta[of self sinonimos columnas]
    notas_simple[of self variable_key sinonimos columnas]
  by (auto simp: buscar_variable_def)

theorem buscar_variable_dispatch_witness:
  "py_lower ''DiEtA'' = ''dieta''
   \<and> buscar_variable (init None) ''DiEtA'' [''dieta''] [''Dieta'']
     = buscar_variable_dieta_especial (init None) [''dieta''] [''Dieta'']
   \<and> py_lower ''edad'' \<noteq> ''dieta''
   \<and> buscar_variable (init None) ''edad'' [''edad''] [''Edad'']
     = buscar_variable_simple (init None) ''edad'' [''edad''] [''Edad'']
   \<and> notas (buscar_variable (init None) ''edad'' [''edad''] [''Edad'']) = None"
proof -
  have 1: "py_lower ''DiEtA'' = ''dieta''" by code_simp
  have 2: "py_lower ''edad'' \<noteq> ''dieta''" by code_simp
  have a: "buscar_variable (init None) ''DiEtA'' [''dieta''] [''Dieta'']
     = buscar_variable_dieta_especial (init None) [''dieta''] [''Dieta'']"
    using buscar_variable_dispatch[of "''DiEtA''" "init None" "[''dieta'']" "[''Dieta'']"] 1
    by blast
  have b: "buscar_variable (init None) ''edad'' [''edad''] [''Edad'']
     = buscar_variable_simple (init None) ''edad'' [''edad''] [''Edad'']"
    and n: "notas (buscar_variable (init None) ''edad'' [''edad''] [''Edad'']) = None"
    using buscar_variable_dispatch[of "''edad''" "init None" "[''edad'']" "[''Edad'']"] 2
    by blast+
  show ?thesis
    by (intro conjI) (rule 1, rule a, rule 2, rule b, rule n)
qed

text \<open>
  The key \<open>diet\<close> is not the reserved key: its result has no notes, where the diet
  policy on the same input reports one general match.
\<close>

theorem buscar_variable_key_diet:
  "py_lower ''diet'' = ''diet''
   \<and> notas (buscar_variable (init None) ''diet'' [''diet''] [''diet'']) = None
   \<and> notas (buscar_variable_dieta_especial (init None) [''diet''] [''diet''])
       = Some ''Dieta general: 1 columna(s)''"
  by code_simp








lemma pares_puntuados_fields:
  "(c, sc, s) \<in> set (pares_puntuados sinonimos columnas) \<Longrightarrow> c \<in> set columnas \<and> s \<in> set sinonimos"
  by (auto simp: pares_puntuados_def)

text \<open>
  \<open>mejor_puntaje\<close> is the largest score over all pairs, and 0 when there is none:
  the value of \<open>mejor_score\<close> when the loops of the standard policy end.
\<close>

definition mejor_puntaje :: "string list \<Rightarrow> string list \<Rightarrow> real" where
  "mejor_puntaje sinonimos columnas =
     foldl max 0 (map (\<lambda>t. fst (snd t)) (pares_puntuados sinonimos columnas))"

lemma foldl_paso_mejor_score:
  "fst (snd (foldl paso_mejor st ts)) = foldl max (fst (snd st)) (map (\<lambda>t. fst (snd t)) ts)"
proof (induction ts arbitrary: st)
  case Nil
  then show ?case by simp
next
  case (Cons t ts)
  have "fst (snd (paso_mejor st t)) = max (fst (snd st)) (fst (snd t))"
    by (simp add: paso_mejor_def max_def)
  then show ?case by (simp add: Cons.IH)
qed

lemma simple_score:
  "encontrada (buscar_variable_simple self variable_key sinonimos columnas)
     = (umbral_similitud self \<le> mejor_puntaje sinonimos columnas)
   \<and> confianza (buscar_variable_simple self variable_key sinonimos columnas)
     = py_round (mejor_puntaje sinonimos columnas) 3
   \<and> umbral_usado (buscar_variable_simple self variable_key sinonimos columnas)
     = Some (umbral_similitud self)"
proof -
  obtain mc ms msin where st:
    "foldl paso_mejor (None, 0, None) (pares_puntuados sinonimos columnas) = (mc, ms, msin)"
    by (cases "foldl paso_mejor (None, 0, None) (pares_puntuados sinonimos columnas)") auto
  have "ms = mejor_puntaje sinonimos columnas"
    using foldl_paso_mejor_score[of "(None, 0, None)" "pares_puntuados sinonimos columnas"]
    by (simp add: st mejor_puntaje_def)
  then show ?thesis
    by (simp add: buscar_variable_simple_def Let_def simple_outer_foldl st)
qed

text \<open>
  The diet policy. \<open>es_fruta\<close> and \<open>es_vegetal\<close> are the keyword tests on the
  normalised text of a column, \<open>aceptadas\<close> the triples whose score reaches the
  threshold, in the order of the loops, and \<open>cubetas\<close> their split into the three
  buckets.
\<close>

definition es_fruta :: "string \<Rightarrow> bool" where
  "es_fruta c = list_ex (\<lambda>palabra. sublist palabra (normalizar_texto c)) palabras_frutas"

definition es_vegetal :: "string \<Rightarrow> bool" where
  "es_vegetal c = list_ex (\<lambda>palabra. sublist palabra (normalizar_texto c)) palabras_vegetales"

definition aceptadas :: "real \<Rightarrow> string list \<Rightarrow> string list \<Rightarrow> coincidencia list" where
  "aceptadas umbral sinonimos columnas =
     filter (\<lambda>t. umbral \<le> fst (snd t)) (pares_puntuados sinonimos columnas)"

definition cubetas ::
  "coincidencia list \<Rightarrow> coincidencia list \<times> coincidencia list \<times> coincidencia list" where
  "cubetas ts =
     (filter (\<lambda>t. es_fruta (fst t)) ts,
      filter (\<lambda>t. \<not> es_fruta (fst t) \<and> es_vegetal (fst t)) ts,
      filter (\<lambda>t. \<not> es_fruta (fst t) \<and> \<not> es_vegetal (fst t)) ts)"

definition anexar ::
  "coincidencia list \<times> coincidencia list \<times> coincidencia list
     \<Rightarrow> coincidencia list \<times> coincidencia list \<times> coincidencia list
     \<Rightarrow> coincidencia list \<times> coincidencia list \<times> coincidencia list" where
  "anexar st bs = (fst st @ fst bs, fst (snd st) @ fst (snd bs), snd (snd st) @ snd (snd bs))"

lemma cubetas_append: "cubetas (xs @ ys) = anexar (cubetas xs) (cubetas ys)"
  by (simp add: cubetas_def anexar_def)

lemma anexar_assoc: "anexar (anexar a b) c = anexar a (anexar b c)"
  by (simp add: anexar_def)

lemma anexar_Nil: "anexar st ([], [], []) = st"
  by (simp add: anexar_def)

lemma dieta_inner_cubetas:
  "dieta_inner umbral c (normalizar_texto c) ss st =
     anexar st (cubetas (filter (\<lambda>t. umbral \<le> fst (snd t))
        (map (\<lambda>s. (c, calcular_similitud (normalizar_texto c) (normalizar_texto s), s)) ss)))"
proof (induction ss arbitrary: st)
  case Nil
  then show ?case by (simp add: cubetas_def anexar_def)
next
  case (Cons s ss)
  obtain f v g where st: "st = (f, v, g)" by (cases st) auto
  show ?case
    unfolding st
    by (simp add: Let_def Cons.IH cubetas_def anexar_def es_fruta_def es_vegetal_def)
qed

lemma dieta_outer_cubetas:
  "dieta_outer umbral (construir_candidatos cs) ss st =
     anexar st (cubetas (aceptadas umbral ss cs))"
proof (induction cs arbitrary: st)
  case Nil
  then show ?case
    by (simp add: construir_candidatos_def aceptadas_def pares_puntuados_def cubetas_def anexar_def)
next
  case (Cons c cs)
  have a: "aceptadas umbral ss (c # cs) =
      filter (\<lambda>t. umbral \<le> fst (snd t))
        (map (\<lambda>s. (c, calcular_similitud (normalizar_texto c) (normalizar_texto s), s)) ss)
      @ aceptadas umbral ss cs"
    by (simp add: aceptadas_def pares_puntuados_def)
  have "dieta_outer umbral (construir_candidatos (c # cs)) ss st =
        dieta_outer umbral (construir_candidatos cs) ss
          (dieta_inner umbral c (normalizar_texto c) ss st)"
    by (simp add: construir_candidatos_def)
  then show ?case
    by (simp only: Cons.IH dieta_inner_cubetas a cubetas_append anexar_assoc)
qed

lemma dieta_outer_init:
  "dieta_outer umbral (construir_candidatos cs) ss ([], [], []) = cubetas (aceptadas umbral ss cs)"
  by (simp add: dieta_outer_cubetas anexar_def)

lemma cubetas_length:
  "length (fst (cubetas ts)) + length (fst (snd (cubetas ts))) + length (snd (snd (cubetas ts)))
     = length ts"
  by (induction ts) (auto simp: cubetas_def)

lemma cubetas_set:
  "set (fst (cubetas ts) @ fst (snd (cubetas ts)) @ snd (snd (cubetas ts))) = set ts"
  by (auto simp: cubetas_def)

lemma cubetas_empty_iff:
  "fst (cubetas ts) @ fst (snd (cubetas ts)) @ snd (snd (cubetas ts)) = [] \<longleftrightarrow> ts = []"
  using cubetas_set[of ts] by (metis set_empty)


lemma hd_ordenar_in_set:
  assumes "xs \<noteq> []"
  shows "hd (ordenar_por_score xs) \<in> set xs"
proof -
  have "length (ordenar_por_score xs) = length xs" by (simp add: ordenar_por_score_def)
  then have "ordenar_por_score xs \<noteq> []" using assms by auto
  then have "hd (ordenar_por_score xs) \<in> set (ordenar_por_score xs)" by (rule hd_in_set)
  then show ?thesis by (simp add: ordenar_por_score_def)
qed

lemma dieta_result:
  fixes self sinonimos columnas
  defines "A \<equiv> aceptadas (umbral_similitud self) sinonimos columnas"
  defines "r \<equiv> buscar_variable_dieta_especial self sinonimos columnas"
  shows "encontrada r = (A \<noteq> [])"
    and "detalles r = Some \<lparr>frutas = fst (cubetas A), vegetales = fst (snd (cubetas A)),
                             generales = snd (snd (cubetas A))\<rparr>"
    and "A = [] \<Longrightarrow> confianza r = 0"
    and "A \<noteq> [] \<Longrightarrow> \<exists>t\<in>set A. confianza r = py_round (fst (snd t)) 3
            \<and> columna r = Some (fst t) \<and> sinonimo_match r = Some (snd (snd t))"
    and "umbral_usado r = None"
proof -
  obtain f v g where c: "cubetas A = (f, v, g)" by (cases "cubetas A") auto
  have d: "dieta_outer (umbral_similitud self) (construir_candidatos columnas) sinonimos ([], [], [])
        = (f, v, g)"
    using c by (simp add: dieta_outer_init A_def)
  have e: "(f @ v @ g = []) = (A = [])" using cubetas_empty_iff[of A] c by simp
  have s: "set (f @ v @ g) = set A" using cubetas_set[of A] c by simp
  show "encontrada r = (A \<noteq> [])"
    using e by (cases "A = []") (auto simp: r_def buscar_variable_dieta_especial_def Let_def d)
  show "detalles r = Some \<lparr>frutas = fst (cubetas A), vegetales = fst (snd (cubetas A)),
                             generales = snd (snd (cubetas A))\<rparr>"
  proof (cases "A = []")
    case True
    then have "f = [] \<and> v = [] \<and> g = []" using e by simp
    then show ?thesis
      using c by (simp add: r_def buscar_variable_dieta_especial_def Let_def d)
  next
    case False
    then have "f @ v @ g \<noteq> []" using e by simp
    then show ?thesis
      using c by (simp add: r_def buscar_variable_dieta_especial_def Let_def d)
  qed
  show "A = [] \<Longrightarrow> confianza r = 0"
    using e by (simp add: r_def buscar_variable_dieta_especial_def Let_def d)
  show "umbral_usado r = None"
    by (simp add: r_def buscar_variable_dieta_especial_def Let_def d)
  show "\<exists>t\<in>set A. confianza r = py_round (fst (snd t)) 3
            \<and> columna r = Some (fst t) \<and> sinonimo_match r = Some (snd (snd t))" if "A \<noteq> []"
  proof -
    have ne: "f @ v @ g \<noteq> []" using e that by simp
    have "hd (ordenar_por_score (f @ v @ g)) \<in> set A"
      using hd_ordenar_in_set[OF ne] unfolding s .
    moreover have "confianza r = py_round (fst (snd (hd (ordenar_por_score (f @ v @ g))))) 3
        \<and> columna r = Some (fst (hd (ordenar_por_score (f @ v @ g))))
        \<and> sinonimo_match r = Some (snd (snd (hd (ordenar_por_score (f @ v @ g)))))"
      using ne by (simp add: r_def buscar_variable_dieta_especial_def Let_def d)
    ultimately show ?thesis by blast
  qed
qed

lemma aceptadas_nonempty_iff:
  "aceptadas umbral sinonimos columnas \<noteq> []
     \<longleftrightarrow> (\<exists>t\<in>set (pares_puntuados sinonimos columnas). umbral \<le> fst (snd t))"
  by (auto simp: aceptadas_def filter_empty_conv)

lemma aceptadas_score:
  "t \<in> set (aceptadas umbral sinonimos columnas) \<Longrightarrow> umbral \<le> fst (snd t)"
  by (simp add: aceptadas_def)

subsection \<open>Evaluation of the scorer and the normaliser on concrete strings\<close>

lemma norm_abc: "normalizar_texto ''abc'' = ''abc''" by code_simp
lemma norm_axy: "normalizar_texto ''axy'' = ''axy''" by code_simp
lemma norm_BMI: "normalizar_texto ''BMI'' = ''bmi''" by code_simp
lemma norm_Age: "normalizar_texto ''Age'' = ''age''" by code_simp
lemma norm_imc: "normalizar_texto ''imc'' = ''imc''" by code_simp
lemma norm_bmi: "normalizar_texto ''bmi'' = ''bmi''" by code_simp
lemma norm_fruta: "normalizar_texto ''fruta'' = ''fruta''" by code_simp
lemma norm_verdura: "normalizar_texto ''verdura'' = ''verdura''" by code_simp
lemma norm_dieta: "normalizar_texto ''dieta'' = ''dieta''" by code_simp

lemma sim_abc_axy: "calcular_similitud ''abc'' ''axy'' = double (1 / 3)" by code_simp
lemma sim_bmi_imc: "calcular_similitud ''bmi'' ''imc'' = double (1 / 3)" by code_simp
lemma sim_bmi_bmi: "calcular_similitud ''bmi'' ''bmi'' = 1" by code_simp
lemma sim_age_imc: "calcular_similitud ''age'' ''imc'' = 0" by code_simp
lemma sim_age_bmi: "calcular_similitud ''age'' ''bmi'' = 0" by code_simp
lemma sim_fruta_dieta: "calcular_similitud ''fruta'' ''dieta'' = double (2 / 5)" by code_simp
lemma sim_fruta_fruta: "calcular_similitud ''fruta'' ''fruta'' = 1" by code_simp
lemma sim_verdura_dieta: "calcular_similitud ''verdura'' ''dieta'' = double (1 / 3)" by code_simp
lemma sim_verdura_fruta: "calcular_similitud ''verdura'' ''fruta'' = 1 / 2" by code_simp
lemma sim_dieta_dieta: "calcular_similitud ''dieta'' ''dieta'' = 1" by code_simp
lemma sim_dieta_fruta: "calcular_similitud ''dieta'' ''fruta'' = double (2 / 5)" by code_simp

text \<open>
  The doubles of the evaluations below, as the fractions they hold: 1/3 and 0.4, the
  scores 2/6 and 4/10 of the scorer, and the literals 0.35, 0.333 and 0.3333.
\<close>

lemma doble_1_3: "double (1 / 3) = 6004799503160661 / 18014398509481984" by code_simp
lemma doble_2_5: "double (2 / 5) = 3602879701896397 / 9007199254740992" by code_simp
lemma doble_7_20: "double (7 / 20) = 3152519739159347 / 9007199254740992" by code_simp
lemma doble_333: "double (333 / 1000) = 5998794703657501 / 18014398509481984" by code_simp
lemma doble_3333: "double (3333 / 10000) = 6004199023210345 / 18014398509481984" by code_simp

lemmas dobles = doble_1_3 doble_2_5 doble_7_20 doble_333 doble_3333 umbral_defecto

lemma round_third: "py_round (double (1 / 3)) 3 = double (333 / 1000)" by code_simp
lemma round_one: "py_round 1 3 = 1" by code_simp
lemma round_umbral: "py_round SIMILARITY_THRESHOLD 3 = SIMILARITY_THRESHOLD" by code_simp

lemma fruta_es_fruta: "es_fruta ''fruta''" by code_simp
lemma verdura_no_fruta: "\<not> es_fruta ''verdura''" by code_simp
lemma verdura_es_vegetal: "es_vegetal ''verdura''" by code_simp
lemma dieta_no_fruta: "\<not> es_fruta ''dieta''" by code_simp
lemma dieta_no_vegetal: "\<not> es_vegetal ''dieta''" by code_simp

lemma pares_bmi:
  "pares_puntuados [''imc'', ''bmi''] [''BMI'', ''Age''] =
     [(''BMI'', double (1 / 3), ''imc''), (''BMI'', 1, ''bmi''), (''Age'', 0, ''imc''),
      (''Age'', 0, ''bmi'')]"
  by (simp add: pares_puntuados_def norm_BMI norm_Age norm_imc norm_bmi
      sim_bmi_imc sim_bmi_bmi sim_age_imc sim_age_bmi)

lemma pares_abc_axy: "pares_puntuados [''axy''] [''abc''] = [(''abc'', double (1 / 3), ''axy'')]"
  by (simp add: pares_puntuados_def norm_abc norm_axy sim_abc_axy)


lemma pares_bmi_BMI: "pares_puntuados [''bmi''] [''BMI''] = [(''BMI'', 1, ''bmi'')]"
  by (simp add: pares_puntuados_def norm_BMI norm_bmi sim_bmi_bmi)




lemma pares_dieta_dieta: "pares_puntuados [''dieta''] [''dieta''] = [(''dieta'', 1, ''dieta'')]"
  by (simp add: pares_puntuados_def norm_dieta sim_dieta_dieta)

lemma pares_dieta:
  "pares_puntuados [''dieta'', ''fruta''] [''fruta'', ''verdura'', ''dieta''] =
     [(''fruta'', double (2 / 5), ''dieta''), (''fruta'', 1, ''fruta''),
      (''verdura'', double (1 / 3), ''dieta''), (''verdura'', 1 / 2, ''fruta''),
      (''dieta'', 1, ''dieta''), (''dieta'', double (2 / 5), ''fruta'')]"
  by (simp add: pares_puntuados_def norm_dieta norm_fruta norm_verdura
      sim_fruta_dieta sim_fruta_fruta sim_verdura_dieta sim_verdura_fruta
      sim_dieta_dieta sim_dieta_fruta)


subsection \<open>The standard policy returns the best pair\<close>




subsection \<open>The invariant of a result\<close>

text \<open>
  Claim C1, amended. A found result has a confidence of at least the threshold rounded
  to 3 decimals. In the standard policy the result records the threshold, is found
  exactly when the best score reaches it, and carries the best score rounded to 3
  decimals whether found or not. In the diet policy, not found together with
  confidence 0 occurs exactly when no pair reaches the threshold, and the result is
  found exactly when some pair does.
\<close>

theorem result_invariant:
  fixes self variable_key sinonimos columnas
  defines "r \<equiv> buscar_variable self variable_key sinonimos columnas"
  defines "T \<equiv> umbral_similitud self"
  shows "(encontrada r \<longrightarrow> py_round T 3 \<le> confianza r)
     \<and> (py_lower variable_key \<noteq> ''dieta'' \<longrightarrow>
          umbral_usado r = Some T
          \<and> encontrada r = (T \<le> mejor_puntaje sinonimos columnas)
          \<and> confianza r = py_round (mejor_puntaje sinonimos columnas) 3)
     \<and> (py_lower variable_key = ''dieta'' \<longrightarrow>
          ((\<not> encontrada r \<and> confianza r = 0)
             \<longleftrightarrow> \<not> (\<exists>t\<in>set (pares_puntuados sinonimos columnas). T \<le> fst (snd t)))
          \<and> (encontrada r \<longleftrightarrow> (\<exists>t\<in>set (pares_puntuados sinonimos columnas). T \<le> fst (snd t))))"
proof (cases "py_lower variable_key = ''dieta''")
  case True
  then have r: "r = buscar_variable_dieta_especial self sinonimos columnas"
    by (simp add: r_def buscar_variable_def)
  let ?A = "aceptadas T sinonimos columnas"
  have enc: "encontrada r = (?A \<noteq> [])" unfolding r T_def by (rule dieta_result(1))
  have z: "?A = [] \<Longrightarrow> confianza r = 0" unfolding r T_def by (rule dieta_result(3))
  have b: "py_round T 3 \<le> confianza r" if "?A \<noteq> []"
  proof -
    have "\<exists>t\<in>set ?A. confianza r = py_round (fst (snd t)) 3"
      unfolding r T_def
      using dieta_result(4)[of self sinonimos columnas] that[unfolded T_def] by blast
    then obtain t where t: "t \<in> set ?A" "confianza r = py_round (fst (snd t)) 3"
      by blast
    have "T \<le> fst (snd t)" using t(1) by (rule aceptadas_score)
    then show ?thesis unfolding t(2) by (rule py_round_mono)
  qed
  show ?thesis
    using True enc z b aceptadas_nonempty_iff[of T sinonimos columnas] by auto
next
  case False
  then have r: "r = buscar_variable_simple self variable_key sinonimos columnas"
    by (simp add: r_def buscar_variable_def)
  have "py_round T 3 \<le> py_round (mejor_puntaje sinonimos columnas) 3"
    if "T \<le> mejor_puntaje sinonimos columnas"
    using that by (rule py_round_mono)
  then show ?thesis
    using False simple_score[of self variable_key sinonimos columnas] unfolding r T_def by auto
qed

theorem result_invariant_witness:
  "py_lower ''bmi'' \<noteq> ''dieta''
   \<and> encontrada (buscar_variable (init None) ''bmi'' [''bmi''] [''BMI''])
   \<and> umbral_usado (buscar_variable (init None) ''bmi'' [''bmi''] [''BMI''])
       = Some SIMILARITY_THRESHOLD
   \<and> confianza (buscar_variable (init None) ''bmi'' [''bmi''] [''BMI'']) = 1
   \<and> py_lower ''Dieta'' = ''dieta''
   \<and> encontrada (buscar_variable (init None) ''Dieta'' [''dieta''] [''dieta''])
   \<and> py_round SIMILARITY_THRESHOLD 3
       \<le> confianza (buscar_variable (init None) ''Dieta'' [''dieta''] [''dieta''])
   \<and> \<not> encontrada (buscar_variable (init None) ''bmi'' [''axy''] [''abc''])
   \<and> confianza (buscar_variable (init None) ''bmi'' [''axy''] [''abc'']) = double (333 / 1000)"
proof -
  have k1: "py_lower ''bmi'' \<noteq> ''dieta''" by code_simp
  have k2: "py_lower ''Dieta'' = ''dieta''" by code_simp
  have m: "mejor_puntaje [''bmi''] [''BMI''] = 1"
    by (simp add: mejor_puntaje_def pares_bmi_BMI)
  have n: "mejor_puntaje [''axy''] [''abc''] = double (1 / 3)"
    by (simp add: mejor_puntaje_def pares_abc_axy doble_1_3)
  have a: "umbral_similitud (init None) = SIMILARITY_THRESHOLD" by (simp add: init_def)
  have b: "SIMILARITY_THRESHOLD \<le> 1" "\<not> SIMILARITY_THRESHOLD \<le> double (1 / 3)"
    by (simp_all add: dobles)
  from result_invariant[of "init None" "''bmi''" "[''bmi'']" "[''BMI'']"]
    result_invariant[of "init None" "''Dieta''" "[''dieta'']" "[''dieta'']"]
    result_invariant[of "init None" "''bmi''" "[''axy'']" "[''abc'']"]
  show ?thesis
    by (simp add: k1 k2 m n a b round_one round_third pares_dieta_dieta)
qed

text \<open>
  The claim as first stated fails twice in the standard policy: a result that is not
  found carries the near-miss score 0.333, and with the threshold 0.3333 a found
  result has the confidence 0.333, below the threshold it records.
\<close>

theorem result_invariant_violated:
  "\<not> encontrada (buscar_variable (init None) ''bmi'' [''axy''] [''abc''])
   \<and> confianza (buscar_variable (init None) ''bmi'' [''axy''] [''abc'']) = double (333 / 1000)
   \<and> 0 < double (333 / 1000)
   \<and> snd (ajustar_umbral (init None) (double (3333 / 10000)))
   \<and> encontrada (buscar_variable (fst (ajustar_umbral (init None) (double (3333 / 10000))))
        ''bmi'' [''axy''] [''abc''])
   \<and> umbral_usado (buscar_variable (fst (ajustar_umbral (init None) (double (3333 / 10000))))
        ''bmi'' [''axy''] [''abc'']) = Some (double (3333 / 10000))
   \<and> confianza (buscar_variable (fst (ajustar_umbral (init None) (double (3333 / 10000))))
        ''bmi'' [''axy''] [''abc'']) = double (333 / 1000)
   \<and> double (333 / 1000) < double (3333 / 10000)"
proof -
  have k: "py_lower ''bmi'' \<noteq> ''dieta''" by code_simp
  have m: "mejor_puntaje [''axy''] [''abc''] = double (1 / 3)"
    by (simp add: mejor_puntaje_def pares_abc_axy doble_1_3)
  have u: "snd (ajustar_umbral (init None) (double (3333 / 10000)))"
    "umbral_similitud (fst (ajustar_umbral (init None) (double (3333 / 10000))))
       = double (3333 / 10000)"
    by (simp_all add: ajustar_umbral_def doble_3333)
  have i: "umbral_similitud (init None) = SIMILARITY_THRESHOLD" by (simp add: init_def)
  have c: "\<not> SIMILARITY_THRESHOLD \<le> double (1 / 3)" "double (3333 / 10000) \<le> double (1 / 3)"
    "0 < double (333 / 1000)" "double (333 / 1000) < double (3333 / 10000)"
    by (simp_all add: dobles)
  show ?thesis
    using k c u(1)
      simple_score[of "init None" "''bmi''" "[''axy'']" "[''abc'']"]
      simple_score[of "fst (ajustar_umbral (init None) (double (3333 / 10000)))" "''bmi''"
        "[''axy'']" "[''abc'']"]
    by (simp add: buscar_variable_def m round_third u(2) i)
qed

subsection \<open>Monotonicity in the threshold\<close>

text \<open>
  Claim C6. If a search finds the variable at the threshold \<open>T\<close>, the same search
  finds it at every threshold \<open>T' < T\<close>, in the standard and in the diet policy.
\<close>

theorem threshold_monotone:
  assumes "encontrada (buscar_variable (self\<lparr>umbral_similitud := T\<rparr>) variable_key sinonimos columnas)"
    and "T' < T"
  shows "encontrada (buscar_variable (self\<lparr>umbral_similitud := T'\<rparr>) variable_key sinonimos columnas)"
proof (cases "py_lower variable_key = ''dieta''")
  case True
  have "aceptadas T sinonimos columnas \<noteq> []"
    using assms(1) True dieta_result(1)[of "self\<lparr>umbral_similitud := T\<rparr>" sinonimos columnas]
    by (simp add: buscar_variable_def)
  then obtain t where "t \<in> set (pares_puntuados sinonimos columnas)" "T \<le> fst (snd t)"
    using aceptadas_nonempty_iff by blast
  then have "\<exists>t\<in>set (pares_puntuados sinonimos columnas). T' \<le> fst (snd t)"
    using assms(2) by force
  then have "aceptadas T' sinonimos columnas \<noteq> []"
    using aceptadas_nonempty_iff by blast
  then show ?thesis
    using True dieta_result(1)[of "self\<lparr>umbral_similitud := T'\<rparr>" sinonimos columnas]
    by (simp add: buscar_variable_def)
next
  case False
  have "T \<le> mejor_puntaje sinonimos columnas"
    using assms(1) False
      simple_score[of "self\<lparr>umbral_similitud := T\<rparr>" variable_key sinonimos columnas]
    by (simp add: buscar_variable_def)
  then have "T' \<le> mejor_puntaje sinonimos columnas" using assms(2) by simp
  then show ?thesis
    using False simple_score[of "self\<lparr>umbral_similitud := T'\<rparr>" variable_key sinonimos columnas]
    by (simp add: buscar_variable_def)
qed

theorem threshold_monotone_witness:
  "encontrada (buscar_variable ((init None)\<lparr>umbral_similitud := SIMILARITY_THRESHOLD\<rparr>)
      ''bmi'' [''bmi''] [''BMI''])
   \<and> 1 / 2 < SIMILARITY_THRESHOLD
   \<and> encontrada (buscar_variable ((init None)\<lparr>umbral_similitud := 1 / 2\<rparr>)
      ''bmi'' [''bmi''] [''BMI''])"
proof -
  have k1: "py_lower ''bmi'' \<noteq> ''dieta''" by code_simp
  have m: "mejor_puntaje [''bmi''] [''BMI''] = 1"
    by (simp add: mejor_puntaje_def pares_bmi_BMI)
  have b: "SIMILARITY_THRESHOLD \<le> 1" by (simp add: umbral_defecto)
  have h1: "encontrada (buscar_variable ((init None)\<lparr>umbral_similitud := SIMILARITY_THRESHOLD\<rparr>)
      ''bmi'' [''bmi''] [''BMI''])"
    using simple_score[of "(init None)\<lparr>umbral_similitud := SIMILARITY_THRESHOLD\<rparr>" "''bmi''"
        "[''bmi'']" "[''BMI'']"]
    by (simp add: buscar_variable_def k1 m b)
  have h2: "1 / 2 < SIMILARITY_THRESHOLD" by (simp add: umbral_defecto)
  from threshold_monotone[OF h1 h2] h1 h2 show ?thesis by simp
qed

subsection \<open>The buckets of the diet policy\<close>

text \<open>
  Claim C7. In the diet policy every accepted pair lies in exactly one bucket: fruit
  when the normalised column has a fruit keyword, else vegetable when it has a
  vegetable keyword, else general; the three sizes add up to the number of accepted
  pairs.
\<close>

theorem dieta_buckets_partition:
  fixes self sinonimos columnas
  defines "A \<equiv> aceptadas (umbral_similitud self) sinonimos columnas"
  shows "\<exists>d. detalles (buscar_variable_dieta_especial self sinonimos columnas) = Some d
     \<and> frutas d = filter (\<lambda>t. es_fruta (fst t)) A
     \<and> vegetales d = filter (\<lambda>t. \<not> es_fruta (fst t) \<and> es_vegetal (fst t)) A
     \<and> generales d = filter (\<lambda>t. \<not> es_fruta (fst t) \<and> \<not> es_vegetal (fst t)) A
     \<and> length (frutas d) + length (vegetales d) + length (generales d) = length A"
  using dieta_result(2)[of self sinonimos columnas] cubetas_length[of A]
  unfolding A_def by (simp add: cubetas_def)

theorem dieta_buckets_partition_witness:
  "detalles (buscar_variable_dieta_especial (fst (ajustar_umbral (init None) (double (7 / 20))))
      [''dieta'', ''fruta''] [''fruta'', ''verdura'', ''dieta''])
     = Some \<lparr>frutas = [(''fruta'', double (2 / 5), ''dieta''), (''fruta'', 1, ''fruta'')],
             vegetales = [(''verdura'', 1 / 2, ''fruta'')],
             generales = [(''dieta'', 1, ''dieta''), (''dieta'', double (2 / 5), ''fruta'')]\<rparr>
   \<and> length (aceptadas (double (7 / 20)) [''dieta'', ''fruta''] [''fruta'', ''verdura'', ''dieta'']) = 5"
proof -
  have u: "umbral_similitud (fst (ajustar_umbral (init None) (double (7 / 20)))) = double (7 / 20)"
    by (simp add: ajustar_umbral_def doble_7_20)
  have a: "aceptadas (double (7 / 20)) [''dieta'', ''fruta''] [''fruta'', ''verdura'', ''dieta''] =
     [(''fruta'', double (2 / 5), ''dieta''), (''fruta'', 1, ''fruta''), (''verdura'', 1 / 2, ''fruta''),
      (''dieta'', 1, ''dieta''), (''dieta'', double (2 / 5), ''fruta'')]"
    by (simp add: aceptadas_def pares_dieta dobles)
  obtain d where d:
    "detalles (buscar_variable_dieta_especial (fst (ajustar_umbral (init None) (double (7 / 20))))
      [''dieta'', ''fruta''] [''fruta'', ''verdura'', ''dieta'']) = Some d"
    "frutas d = [(''fruta'', double (2 / 5), ''dieta''), (''fruta'', 1, ''fruta'')]"
    "vegetales d = [(''verdura'', 1 / 2, ''fruta'')]"
    "generales d = [(''dieta'', 1, ''dieta''), (''dieta'', double (2 / 5), ''fruta'')]"
    using dieta_buckets_partition[of "fst (ajustar_umbral (init None) (double (7 / 20)))"
        "[''dieta'', ''fruta'']" "[''fruta'', ''verdura'', ''dieta'']"]
    unfolding u a
    by (auto simp: fruta_es_fruta verdura_no_fruta verdura_es_vegetal dieta_no_fruta
        dieta_no_vegetal)
  have "d = \<lparr>frutas = [(''fruta'', double (2 / 5), ''dieta''), (''fruta'', 1, ''fruta'')],
             vegetales = [(''verdura'', 1 / 2, ''fruta'')],
             generales = [(''dieta'', 1, ''dieta''), (''dieta'', double (2 / 5), ''fruta'')]\<rparr>"
    using d(2,3,4) by (cases d) simp
  then show ?thesis using d(1) a by simp
qed

subsection \<open>Statistics of a search\<close>

lemma buscar_todas_variables_variable:
  "r \<in> set (buscar_todas_variables self variables_config columnas) \<Longrightarrow> variable r \<noteq> None"
  by (auto simp: buscar_todas_variables_def)











section \<open>Properties of the scorer\<close>

text \<open>
  The recursive equations of the loops are unfolded by hand in the proofs below.
\<close>

declare gmb_loop.simps [simp del]
declare extend_left.simps [simp del]
declare extend_right.simps [simp del]

text \<open>
  \<open>tam\<close> is the size of a block and \<open>total\<close> the number of matched elements of a list
  of blocks: the \<open>matches\<close> of \<open>ratio\<close>. Sorting and collapsing the blocks keep it.
\<close>

definition tam :: "nat \<times> nat \<times> nat \<Rightarrow> nat" where
  "tam x = snd (snd x)"

definition total :: "(nat \<times> nat \<times> nat) list \<Rightarrow> nat" where
  "total xs = sum_list (map tam xs)"

lemma total_simps [simp]:
  "total [] = 0" "total (x # xs) = tam x + total xs" "total (xs @ ys) = total xs + total ys"
  by (simp_all add: total_def)

lemma tam_triple [simp]: "tam (i, j, k) = k"
  by (simp add: tam_def)

lemma total_insort: "total (insort_key f x xs) = tam x + total xs"
  by (induction xs) auto

lemma total_sort: "total (sort_key f xs) = total xs"
  by (induction xs) (auto simp: total_insort)

lemma total_collapse_loop:
  "tam (fst (collapse_loop xs (x, na))) + total (snd (collapse_loop xs (x, na)))
     = tam x + total na + total xs"
proof (induction xs arbitrary: x na)
  case Nil
  then show ?case by simp
next
  case (Cons y ys)
  obtain i1 j1 k1 where x: "x = (i1, j1, k1)" by (cases x) auto
  obtain i2 j2 k2 where y: "y = (i2, j2, k2)" by (cases y) auto
  show ?case unfolding x y by (simp add: Cons.IH)
qed

lemma total_get_matching_blocks:
  "total (get_matching_blocks a b) = total (gmb_loop a b [(0, length a, 0, length b)] [])"
proof -
  let ?mb = "sort (gmb_loop a b [(0, length a, 0, length b)] [])"
  obtain i1 j1 k1 na where c: "collapse_loop ?mb ((0, 0, 0), []) = ((i1, j1, k1), na)"
    by (cases "collapse_loop ?mb ((0, 0, 0), [])") auto
  have "k1 + total na = total ?mb"
    using total_collapse_loop[of ?mb "(0, 0, 0)" "[]"] by (simp add: c)
  then show ?thesis
    by (simp add: get_matching_blocks_def Let_def c total_sort)
qed

lemma ratio_total:
  "ratio a b = calculate_ratio (total (get_matching_blocks a b)) (length a + length b)"
proof -
  have "(\<lambda>(i, j, k). k) = tam" by (auto simp: tam_def fun_eq_iff)
  then show ?thesis by (simp add: ratio_def total_def Let_def)
qed

text \<open>
  The blocks found in a region are no longer than the region, in \<open>a\<close> and in \<open>b\<close>:
  \<open>peso_a\<close> and \<open>peso_b\<close> add up the lengths of the regions still on the queue.
\<close>

definition peso_a :: "(nat \<times> nat \<times> nat \<times> nat) list \<Rightarrow> nat" where
  "peso_a queue = sum_list (map (\<lambda>(alo, ahi, blo, bhi). ahi - alo) queue)"

definition peso_b :: "(nat \<times> nat \<times> nat \<times> nat) list \<Rightarrow> nat" where
  "peso_b queue = sum_list (map (\<lambda>(alo, ahi, blo, bhi). bhi - blo) queue)"

lemma gmb_loop_total_le:
  "total (gmb_loop a b queue acc) \<le> total acc + peso_a queue
   \<and> total (gmb_loop a b queue acc) \<le> total acc + peso_b queue"
proof (induction a b queue acc rule: gmb_loop.induct)
  case (1 a b matching_blocks)
  then show ?case by (simp add: gmb_loop.simps)
next
  case (2 a b alo ahi blo bhi queue matching_blocks)
  obtain i j k where f: "find_longest_match a b alo ahi blo bhi = (i, j, k)"
    by (cases "find_longest_match a b alo ahi blo bhi") auto
  show ?case
  proof (cases "k = 0")
    case True
    then show ?thesis
      using "2.IH"(2)[OF f[symmetric] refl] f
      by (simp add: peso_a_def peso_b_def gmb_loop.simps)
  next
    case False
    have bd: "alo \<le> i \<and> i + k \<le> ahi \<and> blo \<le> j \<and> j + k \<le> bhi"
      using find_longest_match_bounds[OF f False] .
    let ?q = "(if i + k < ahi \<and> j + k < bhi then [(i + k, ahi, j + k, bhi)] else [])
                 @ (if alo < i \<and> blo < j then [(alo, i, blo, j)] else []) @ queue"
    have ih: "total (gmb_loop a b ?q (matching_blocks @ [(i, j, k)]))
                \<le> total (matching_blocks @ [(i, j, k)]) + peso_a ?q
            \<and> total (gmb_loop a b ?q (matching_blocks @ [(i, j, k)]))
                \<le> total (matching_blocks @ [(i, j, k)]) + peso_b ?q"
      using "2.IH"(1)[OF f[symmetric] refl False] .
    have pa: "k + peso_a ?q \<le> peso_a ((alo, ahi, blo, bhi) # queue)"
      using bd by (auto simp: peso_a_def)
    have pb: "k + peso_b ?q \<le> peso_b ((alo, ahi, blo, bhi) # queue)"
      using bd by (auto simp: peso_b_def)
    have st: "gmb_loop a b ((alo, ahi, blo, bhi) # queue) matching_blocks =
        gmb_loop a b ?q (matching_blocks @ [(i, j, k)])"
      using f False by (simp add: gmb_loop.simps)
    show ?thesis unfolding st using ih pa pb by simp
  qed
qed

lemma total_le_lengths:
  "total (get_matching_blocks a b) \<le> length a \<and> total (get_matching_blocks a b) \<le> length b"
  using gmb_loop_total_le[of a b "[(0, length a, 0, length b)]" "[]"]
  by (simp add: total_get_matching_blocks peso_a_def peso_b_def)

lemma ratio_bounds: "0 \<le> ratio a b \<and> ratio a b \<le> 1"
proof -
  let ?m = "total (get_matching_blocks a b)"
  have "2 * ?m \<le> length a + length b" using total_le_lengths[of a b] by linarith
  then have le: "2 * real ?m \<le> real (length a + length b)" by linarith
  have n: "0 \<le> 2 * real ?m / real (length a + length b)" by simp
  have o: "2 * real ?m / real (length a + length b) \<le> 1"
  proof (cases "length a + length b = 0")
    case True
    then show ?thesis by simp
  next
    case False
    then have "0 < length a + length b" by simp
    then have "0 < real (length a + length b)" by (simp only: of_nat_0_less_iff)
    then show ?thesis using le by (simp only: pos_divide_le_eq mult_1)
  qed
  have "0 \<le> double (2 * real ?m / real (length a + length b))"
    using n by (rule double_nonneg)
  moreover have "double (2 * real ?m / real (length a + length b)) \<le> 1"
    using o by (rule double_le_1)
  ultimately show ?thesis
    by (simp add: ratio_total calculate_ratio_def)
qed

text \<open>
  The table \<open>j2len\<close> of \<open>find_longest_match\<close> on the whole of \<open>a\<close> and \<open>b\<close>:
  \<open>run a b i j\<close> is the length of the longest match that ends with \<open>a[i]\<close> and
  \<open>b[j]\<close> and has no popular element, \<open>prev\<close> the value that \<open>j2len.get(j-1, 0)\<close>
  reads in row \<open>i\<close>, \<open>tab\<close> the table after row \<open>i\<close>.
\<close>

primrec run :: "'a list \<Rightarrow> 'a list \<Rightarrow> nat \<Rightarrow> nat \<Rightarrow> nat" where
  "run a b 0 j = (if j \<in> set (chain_b b (a ! 0)) then 1 else 0)"
| "run a b (Suc i) j =
     (if j \<in> set (chain_b b (a ! Suc i))
      then (case j of 0 \<Rightarrow> 1 | Suc j' \<Rightarrow> run a b i j' + 1) else 0)"

definition prev :: "'a list \<Rightarrow> 'a list \<Rightarrow> nat \<Rightarrow> nat \<Rightarrow> nat" where
  "prev a b i j = (case i of 0 \<Rightarrow> 0 | Suc i' \<Rightarrow> (case j of 0 \<Rightarrow> 0 | Suc j' \<Rightarrow> run a b i' j'))"

lemma run_prev: "run a b i j = (if j \<in> set (chain_b b (a ! i)) then prev a b i j + 1 else 0)"
  by (cases i; cases j) (simp_all add: prev_def)

definition popular :: "'a list \<Rightarrow> 'a \<Rightarrow> bool" where
  "popular b x = (length b \<ge> 200
     \<and> length (filter (\<lambda>j. b ! j = x) [0..<length b]) > length b div 100 + 1)"

lemma chain_b_set: "j \<in> set (chain_b b x) \<longleftrightarrow> j < length b \<and> b ! j = x \<and> \<not> popular b x"
  by (auto simp: chain_b_def popular_def Let_def)

lemma chain_b_sorted: "sorted (chain_b b x)"
  by (simp add: chain_b_def Let_def sorted_wrt_filter)

lemma chain_b_sym:
  assumes "i < length a" "j < length a"
  shows "j \<in> set (chain_b a (a ! i)) \<longleftrightarrow> i \<in> set (chain_b a (a ! j))"
  using assms by (auto simp: chain_b_set)

lemma run_sym:
  assumes "i < length a" "j < length a"
  shows "run a a i j = run a a j i"
  using assms
proof (induction i arbitrary: j)
  case 0
  then show ?case
    using chain_b_sym[of 0 a j] by (cases j) auto
next
  case (Suc i)
  show ?case
  proof (cases j)
    case 0
    then show ?thesis using chain_b_sym[of "Suc i" a 0] Suc.prems by auto
  next
    case (Suc j')
    have "run a a i j' = run a a j' i" using Suc.IH[of j'] Suc.prems Suc by simp
    then show ?thesis
      using chain_b_sym[of "Suc i" a "Suc j'"] Suc.prems Suc by auto
  qed
qed

lemma run_diag_max:
  assumes "i < length a"
  shows "run a a i j \<le> run a a i i"
  using assms
proof (induction i arbitrary: j)
  case 0
  then show ?case by (auto simp: chain_b_set)
next
  case (Suc i)
  show ?case
  proof (cases "j \<in> set (chain_b a (a ! Suc i))")
    case False
    then show ?thesis by simp
  next
    case True
    then have d: "Suc i \<in> set (chain_b a (a ! Suc i))"
      using Suc.prems by (auto simp: chain_b_set)
    show ?thesis
    proof (cases j)
      case 0
      then show ?thesis using True d by simp
    next
      case (Suc j')
      have "run a a i j' \<le> run a a i i" using Suc.IH[of j'] Suc.prems by simp
      then show ?thesis using True d Suc by simp
    qed
  qed
qed

definition tab :: "'a list \<Rightarrow> 'a list \<Rightarrow> nat \<Rightarrow> nat \<rightharpoonup> nat" where
  "tab a b i = (\<lambda>j. if j \<in> set (chain_b b (a ! i)) then Some (run a b i j) else None)"

definition fila :: "'a list \<Rightarrow> 'a list \<Rightarrow> nat \<Rightarrow> (nat \<rightharpoonup> nat) \<Rightarrow> bool" where
  "fila a b i j2len = (\<forall>j. j2lenget j2len j = prev a b i j)"

lemma fila_0: "fila a b 0 Map.empty"
  by (simp add: fila_def j2lenget_def prev_def)

lemma fila_tab: "fila a b (Suc i) (tab a b i)"
  unfolding fila_def
proof
  fix j
  show "j2lenget (tab a b i) j = prev a b (Suc i) j"
    by (cases j) (auto simp: j2lenget_def prev_def tab_def run_prev)
qed

lemma flm_inner_tab:
  assumes "\<forall>j\<in>set js. j < bhi"
  shows "fst (flm_inner j2len i 0 bhi js (nj, best)) =
     (\<lambda>j. if j \<in> set js then Some (j2lenget j2len j + 1) else nj j)"
  using assms
proof (induction js arbitrary: nj best)
  case Nil
  then show ?case by simp
next
  case (Cons j js)
  obtain bi bj bs where best: "best = (bi, bj, bs)" by (cases best) auto
  have lt: "j < bhi" and rest: "\<forall>j\<in>set js. j < bhi" using Cons.prems by auto
  show ?case
    unfolding best using lt Cons.IH[OF rest]
    by (auto simp: Let_def fun_eq_iff)
qed

lemma flm_inner_row:
  assumes "fila a b i j2len"
  shows "fst (flm_inner j2len i 0 (length b) (chain_b b (a ! i)) (Map.empty, best)) = tab a b i"
proof -
  have "\<forall>j\<in>set (chain_b b (a ! i)). j < length b" by (simp add: chain_b_set)
  from flm_inner_tab[OF this]
  show ?thesis
    using assms by (auto simp: fun_eq_iff tab_def fila_def run_prev)
qed

text \<open>
  A string compared with itself: the best block of the first loop lies on the
  diagonal, because a match ending at \<open>(i, j)\<close> is no longer than the one ending at
  \<open>(i, i)\<close>, which the loop sees first, and as long as the one ending at \<open>(j, i)\<close>,
  seen in an earlier row. The two extension loops then stretch it over the whole
  string.
\<close>

lemma flm_inner_diag:
  assumes row: "fila a a i j2len" and i: "i < length a"
    and js: "sorted js" "set js \<subseteq> set (chain_b a (a ! i))"
    and d: "bi = bj"
    and E: "\<forall>i'<i. \<forall>j. run a a i' j \<le> bs"
    and Q: "\<forall>j\<in>set js. i < j \<longrightarrow> i \<in> set js \<or> run a a i i \<le> bs"
  shows "\<exists>d' bs'. snd (flm_inner j2len i 0 (length a) js (nj, (bi, bj, bs))) = (d', d', bs')
           \<and> bs \<le> bs' \<and> (\<forall>j\<in>set js. run a a i j \<le> bs')"
  using js d E Q
proof (induction js arbitrary: nj bi bj bs)
  case Nil
  then show ?case by simp
next
  case (Cons j js)
  have jin: "j \<in> set (chain_b a (a ! i))" using Cons.prems(2) by simp
  then have jlt: "j < length a" by (simp add: chain_b_set)
  have k: "j2lenget j2len j + 1 = run a a i j"
    using row jin by (simp add: fila_def run_prev)
  have srt: "sorted js" "set js \<subseteq> set (chain_b a (a ! i))" "\<forall>x\<in>set js. j \<le> x"
    using Cons.prems(1,2) by auto
  have nob: "\<not> run a a i j > bs" if "j \<noteq> i"
  proof (cases "j < i")
    case True
    have "run a a i j = run a a j i" using run_sym[OF i jlt] .
    then show ?thesis using Cons.prems(4) True by (metis not_less)
  next
    case False
    then have gt: "i < j" using that by simp
    have "i \<notin> set (j # js)" using gt srt(3) by auto
    then have "run a a i i \<le> bs" using Cons.prems(5) gt by auto
    then show ?thesis using run_diag_max[OF i, of j] by simp
  qed
  show ?case
  proof (cases "run a a i j > bs")
    case True
    then have ji: "j = i" using nob by blast
    have st: "flm_inner j2len i 0 (length a) (j # js) (nj, (bi, bj, bs)) =
        flm_inner j2len i 0 (length a) js
          (nj(j \<mapsto> run a a i j), (i + 1 - run a a i j, j + 1 - run a a i j, run a a i j))"
      using True jlt k by (simp add: Let_def)
    have E': "\<forall>i'<i. \<forall>j'. run a a i' j' \<le> run a a i j"
      using Cons.prems(4) True by (meson le_trans less_imp_le)
    have Q': "\<forall>j'\<in>set js. i < j' \<longrightarrow> i \<in> set js \<or> run a a i i \<le> run a a i j"
      using ji by simp
    have dd: "i + 1 - run a a i j = j + 1 - run a a i j" using ji by simp
    obtain d' bs' where r:
      "snd (flm_inner j2len i 0 (length a) js
          (nj(j \<mapsto> run a a i j), (i + 1 - run a a i j, j + 1 - run a a i j, run a a i j)))
        = (d', d', bs')"
      "run a a i j \<le> bs'" "\<forall>j'\<in>set js. run a a i j' \<le> bs'"
      using Cons.IH[OF srt(1,2) dd E' Q', of "nj(j \<mapsto> run a a i j)"] by blast
    show ?thesis
      unfolding st using r True by auto
  next
    case False
    have st: "flm_inner j2len i 0 (length a) (j # js) (nj, (bi, bj, bs)) =
        flm_inner j2len i 0 (length a) js (nj(j \<mapsto> run a a i j), (bi, bj, bs))"
      using False jlt k by (simp add: Let_def)
    have Q': "\<forall>j'\<in>set js. i < j' \<longrightarrow> i \<in> set js \<or> run a a i i \<le> bs"
    proof (cases "j = i")
      case True
      then show ?thesis using False by auto
    next
      case ne: False
      show ?thesis
      proof (intro ballI impI)
        fix j' assume j': "j' \<in> set js" "i < j'"
        then have "i \<in> set (j # js) \<or> run a a i i \<le> bs" using Cons.prems(5) by auto
        then show "i \<in> set js \<or> run a a i i \<le> bs" using ne by auto
      qed
    qed
    obtain d' bs' where r:
      "snd (flm_inner j2len i 0 (length a) js (nj(j \<mapsto> run a a i j), (bi, bj, bs))) = (d', d', bs')"
      "bs \<le> bs'" "\<forall>j'\<in>set js. run a a i j' \<le> bs'"
      using Cons.IH[OF srt(1,2) Cons.prems(3,4) Q', of "nj(j \<mapsto> run a a i j)"] by blast
    show ?thesis
      unfolding st using r False by auto
  qed
qed

lemma flm_row_diag:
  assumes "fila a a i j2len" "i < length a" "\<forall>i'<i. \<forall>j. run a a i' j \<le> bs"
  shows "\<exists>d' bs'. flm_inner j2len i 0 (length a) (chain_b a (a ! i)) (Map.empty, (d, d, bs))
            = (tab a a i, (d', d', bs'))
           \<and> (\<forall>i'<Suc i. \<forall>j. run a a i' j \<le> bs')"
proof -
  have Q: "\<forall>j\<in>set (chain_b a (a ! i)). i < j \<longrightarrow>
             i \<in> set (chain_b a (a ! i)) \<or> run a a i i \<le> bs"
    using assms(2) by (auto simp: chain_b_set)
  obtain d' bs' where r:
    "snd (flm_inner j2len i 0 (length a) (chain_b a (a ! i)) (Map.empty, (d, d, bs))) = (d', d', bs')"
    "bs \<le> bs'" "\<forall>j\<in>set (chain_b a (a ! i)). run a a i j \<le> bs'"
    using flm_inner_diag[OF assms(1,2) chain_b_sorted subset_refl refl assms(3) Q] by blast
  have t: "fst (flm_inner j2len i 0 (length a) (chain_b a (a ! i)) (Map.empty, (d, d, bs)))
      = tab a a i"
    using assms(1) by (rule flm_inner_row)
  have all: "run a a i j \<le> bs'" for j
    using r(3) by (cases "j \<in> set (chain_b a (a ! i))") (auto simp: run_prev)
  have E: "\<forall>i'<Suc i. \<forall>j. run a a i' j \<le> bs'"
    using assms(3) r(2) all by (metis le_trans less_Suc_eq)
  show ?thesis using r(1) t E by (metis prod.collapse)
qed

lemma flm_outer_diag:
  assumes "fila a a m j2len" "n \<le> length a" "\<forall>i'<m. \<forall>j. run a a i' j \<le> bs"
  shows "\<exists>d' bs'. snd (flm_outer a (chain_b a) 0 (length a) [m..<n] (j2len, (d, d, bs)))
           = (d', d', bs')"
  using assms
proof (induction "n - m" arbitrary: m j2len d bs)
  case 0
  then show ?case by simp
next
  case (Suc x)
  then have lt: "m < n" by simp
  then have ml: "m < length a" using Suc.prems(2) by simp
  obtain d' bs' where r:
    "flm_inner j2len m 0 (length a) (chain_b a (a ! m)) (Map.empty, (d, d, bs))
        = (tab a a m, (d', d', bs'))"
    "\<forall>i'<Suc m. \<forall>j. run a a i' j \<le> bs'"
    using flm_row_diag[OF Suc.prems(1) ml Suc.prems(3)] by blast
  have x: "x = n - Suc m" using Suc.hyps(2) by simp
  have "\<exists>d'' bs''. snd (flm_outer a (chain_b a) 0 (length a) [Suc m..<n] (tab a a m, (d', d', bs')))
           = (d'', d'', bs'')"
    by (rule Suc.hyps(1)[OF x fila_tab Suc.prems(2) r(2)])
  then show ?case using lt r(1) by (simp add: upt_rec[of m n])
qed

lemma extend_left_diag: "extend_left a a 0 0 (d, d, s) = (0, 0, s + d)"
proof (induction d arbitrary: s)
  case 0
  then show ?case by (simp add: extend_left.simps)
next
  case (Suc d)
  have "extend_left a a 0 0 (Suc d, Suc d, s) = extend_left a a 0 0 (d, d, s + 1)"
    by (subst extend_left.simps) simp
  then show ?case using Suc.IH[of "s + 1"] by simp
qed

lemma extend_right_diag:
  assumes "s \<le> n"
  shows "extend_right a a n n (0, 0, s) = (0, 0, n)"
  using assms
proof (induction "n - s" arbitrary: s)
  case 0
  then show ?case by (simp add: extend_right.simps)
next
  case (Suc x)
  then have lt: "s < n" by simp
  have "extend_right a a n n (0, 0, s) = extend_right a a n n (0, 0, s + 1)"
    using lt by (subst extend_right.simps) simp
  then show ?case using Suc.hyps(1)[of "s + 1"] Suc.hyps(2) lt by simp
qed

lemma find_longest_match_self:
  "find_longest_match a a 0 (length a) 0 (length a) = (0, 0, length a)"
proof -
  let ?n = "length a"
  obtain d s where o:
    "snd (flm_outer a (chain_b a) 0 ?n [0..<?n] (Map.empty, (0, 0, 0))) = (d, d, s)"
    using flm_outer_diag[OF fila_0 le_refl, of a 0 0] by auto
  have "best_ok 0 ?n 0 ?n (d, d, s)"
    using flm_outer_inv[of 0 0 0 Map.empty ?n ?n "(0, 0, 0)" a "chain_b a"] o
    by (simp add: row_ok_def best_ok_def)
  then have le: "s + d \<le> ?n" by (auto simp: best_ok_def)
  show ?thesis
    unfolding find_longest_match_def Let_def o extend_left_diag
    using le by (rule extend_right_diag)
qed

lemma gmb_loop_self:
  assumes "a \<noteq> []"
  shows "gmb_loop a a [(0, length a, 0, length a)] [] = [(0, 0, length a)]"
  using assms by (simp add: gmb_loop.simps find_longest_match_self)

lemma ratio_self:
  assumes "a \<noteq> []"
  shows "ratio a a = 1"
proof -
  have e: "2 * real (length a) / real (length a + length a) = 1" using assms by simp
  have c: "calculate_ratio (length a) (length a + length a) = 1"
    unfolding calculate_ratio_def e using assms by (simp add: double_1)
  have "total (get_matching_blocks a a) = length a"
    using assms by (simp add: total_get_matching_blocks gmb_loop_self)
  then show ?thesis unfolding ratio_total using c by simp
qed

text \<open>
  The size of the best block never decreases, and is at least 1 once a row has an
  index of \<open>b\<close> to visit.
\<close>

lemma flm_inner_mono:
  "tam best \<le> tam (snd (flm_inner j2len i blo bhi js (nj, best)))"
proof (induction js arbitrary: nj best)
  case Nil
  then show ?case by simp
next
  case (Cons j js)
  obtain bi bj bs where best: "best = (bi, bj, bs)" by (cases best) auto
  define k where "k = j2lenget j2len j + 1"
  define nj' where "nj' = nj(j \<mapsto> k)"
  have step: "flm_inner j2len i blo bhi (j # js) (nj, (bi, bj, bs)) =
     (if j < blo then flm_inner j2len i blo bhi js (nj, (bi, bj, bs))
      else if bhi \<le> j then (nj, (bi, bj, bs))
      else if bs < k then flm_inner j2len i blo bhi js (nj', (i + 1 - k, j + 1 - k, k))
      else flm_inner j2len i blo bhi js (nj', (bi, bj, bs)))"
    by (simp add: Let_def k_def nj'_def)
  show ?case
    unfolding best step
    using Cons.IH[where nj = nj and best = "(bi, bj, bs)"]
      Cons.IH[where nj = nj' and best = "(bi, bj, bs)"]
      Cons.IH[where nj = nj' and best = "(i + 1 - k, j + 1 - k, k)"]
    by auto
qed

lemma flm_inner_hit:
  assumes "js \<noteq> []" "\<forall>j\<in>set js. j < bhi"
  shows "1 \<le> tam (snd (flm_inner j2len i 0 bhi js (nj, best)))"
proof -
  obtain j js' where js: "js = j # js'" using assms(1) by (cases js) auto
  obtain bi bj bs where best: "best = (bi, bj, bs)" by (cases best) auto
  have lt: "j < bhi" using assms(2) js by simp
  define k where "k = j2lenget j2len j + 1"
  define nj' where "nj' = nj(j \<mapsto> k)"
  have k1: "1 \<le> k" by (simp add: k_def)
  have step: "flm_inner j2len i 0 bhi (j # js') (nj, (bi, bj, bs)) =
     (if bs < k then flm_inner j2len i 0 bhi js' (nj', (i + 1 - k, j + 1 - k, k))
      else flm_inner j2len i 0 bhi js' (nj', (bi, bj, bs)))"
    using lt by (simp add: Let_def k_def nj'_def)
  show ?thesis
    unfolding js best step
    using k1
      flm_inner_mono[where best = "(bi, bj, bs)" and ?j2len = j2len and i = i and blo = 0
        and bhi = bhi and js = js' and nj = nj']
      flm_inner_mono[where best = "(i + 1 - k, j + 1 - k, k)" and ?j2len = j2len and i = i
        and blo = 0 and bhi = bhi and js = js' and nj = nj']
    by auto
qed

lemma flm_outer_mono:
  "tam best \<le> tam (snd (flm_outer a b2j blo bhi rows (j2len, best)))"
proof (induction rows arbitrary: j2len best)
  case Nil
  then show ?case by simp
next
  case (Cons i rows)
  obtain nj nb where st: "flm_inner j2len i blo bhi (b2j (a ! i)) (Map.empty, best) = (nj, nb)"
    by (cases "flm_inner j2len i blo bhi (b2j (a ! i)) (Map.empty, best)") auto
  have "tam best \<le> tam nb"
    using flm_inner_mono[where best = best and ?j2len = j2len and i = i and blo = blo
        and bhi = bhi and js = "b2j (a ! i)" and nj = Map.empty] by (simp add: st)
  then show ?case using Cons.IH[where ?j2len = nj and best = nb] by (simp add: st)
qed

lemma flm_outer_hit:
  assumes "i \<in> set rows" "b2j (a ! i) \<noteq> []" "\<forall>i\<in>set rows. \<forall>j\<in>set (b2j (a ! i)). j < bhi"
  shows "1 \<le> tam (snd (flm_outer a b2j 0 bhi rows (j2len, best)))"
  using assms
proof (induction rows arbitrary: j2len best)
  case Nil
  then show ?case by simp
next
  case (Cons r rows)
  obtain nj nb where st: "flm_inner j2len r 0 bhi (b2j (a ! r)) (Map.empty, best) = (nj, nb)"
    by (cases "flm_inner j2len r 0 bhi (b2j (a ! r)) (Map.empty, best)") auto
  show ?case
  proof (cases "r = i")
    case True
    have "b2j (a ! r) \<noteq> []" "\<forall>j\<in>set (b2j (a ! r)). j < bhi"
      using Cons.prems(2,3) True by auto
    then have "1 \<le> tam (snd (flm_inner j2len r 0 bhi (b2j (a ! r)) (Map.empty, best)))"
      by (rule flm_inner_hit)
    then have "1 \<le> tam nb" by (simp add: st)
    then show ?thesis
      using flm_outer_mono[where best = nb and a = a and ?b2j = b2j and blo = 0 and bhi = bhi
          and rows = rows and ?j2len = nj] by (simp add: st)
  next
    case False
    then have "i \<in> set rows" using Cons.prems(1) by simp
    then show ?thesis
      using Cons.IH[where ?j2len = nj and best = nb] Cons.prems(2,3) by (simp add: st)
  qed
qed

lemma flm_outer_none:
  assumes "\<forall>i\<in>set rows. b2j (a ! i) = []"
  shows "snd (flm_outer a b2j blo bhi rows (j2len, best)) = best"
  using assms by (induction rows arbitrary: j2len) simp_all

lemma extend_left_mono: "tam best \<le> tam (extend_left a b alo blo best)"
proof (induction a b alo blo best rule: extend_left.induct)
  case (1 a b alo blo besti bestj bestsize)
  show ?case
  proof (cases "besti > alo \<and> bestj > blo \<and> a ! (besti - 1) = b ! (bestj - 1)")
    case True
    from "1.IH"[OF True] show ?thesis
      by (subst extend_left.simps) (simp add: True)
  next
    case False
    show ?thesis by (subst extend_left.simps) (simp only: False if_False order_refl)
  qed
qed

lemma extend_right_mono: "tam best \<le> tam (extend_right a b ahi bhi best)"
proof (induction a b ahi bhi best rule: extend_right.induct)
  case (1 a b ahi bhi besti bestj bestsize)
  show ?case
  proof (cases "besti + bestsize < ahi \<and> bestj + bestsize < bhi
         \<and> a ! (besti + bestsize) = b ! (bestj + bestsize)")
    case True
    from "1.IH"[OF True] show ?thesis
      by (subst extend_right.simps) (simp add: True)
  next
    case False
    show ?thesis by (subst extend_right.simps) (simp only: False if_False order_refl)
  qed
qed

lemma gmb_loop_total_ge: "total acc \<le> total (gmb_loop a b queue acc)"
proof (induction a b queue acc rule: gmb_loop.induct)
  case (1 a b matching_blocks)
  then show ?case by (simp add: gmb_loop.simps)
next
  case (2 a b alo ahi blo bhi queue matching_blocks)
  obtain i j k where f: "find_longest_match a b alo ahi blo bhi = (i, j, k)"
    by (cases "find_longest_match a b alo ahi blo bhi") auto
  show ?case
  proof (cases "k = 0")
    case True
    then show ?thesis
      using "2.IH"(2)[OF f[symmetric] refl] f by (simp add: gmb_loop.simps)
  next
    case False
    then show ?thesis
      using "2.IH"(1)[OF f[symmetric] refl False] f by (simp add: gmb_loop.simps)
  qed
qed

text \<open>
  \<open>comparten a b\<close>: the two sequences have an element in common.
\<close>

definition comparten :: "'a list \<Rightarrow> 'a list \<Rightarrow> bool" where
  "comparten a b = (\<exists>i<length a. \<exists>j<length b. a ! i = b ! j)"

lemma comparten_sym: "comparten a b = comparten b a"
  unfolding comparten_def by metis

lemma ratio_pos:
  assumes "comparten a b" "length a < 200" "length b < 200"
  shows "0 < ratio a b"
proof -
  obtain i j where ij: "i < length a" "j < length b" "a ! i = b ! j"
    using assms(1) by (auto simp: comparten_def)
  have np: "\<not> popular b x" for x using assms(3) by (simp add: popular_def)
  have ne: "chain_b b (a ! i) \<noteq> []"
    using ij np chain_b_set[of j b "a ! i"] by auto
  have rng: "\<forall>i\<in>set [0..<length a]. \<forall>j\<in>set (chain_b b (a ! i)). j < length b"
    by (simp add: chain_b_set)
  have "1 \<le> tam (snd (flm_outer a (chain_b b) 0 (length b) [0..<length a]
                         (Map.empty, (0, 0, 0))))"
    using flm_outer_hit[of i "[0..<length a]" "chain_b b" a "length b"] ij(1) ne rng by simp
  then have "1 \<le> tam (find_longest_match a b 0 (length a) 0 (length b))"
    unfolding find_longest_match_def Let_def
    by (meson extend_left_mono extend_right_mono le_trans)
  then obtain i' j' k where f: "find_longest_match a b 0 (length a) 0 (length b) = (i', j', k)"
    and k: "1 \<le> k"
    by (cases "find_longest_match a b 0 (length a) 0 (length b)") auto
  have "total [(i', j', k)] \<le> total (gmb_loop a b [(0, length a, 0, length b)] [])"
    using f k gmb_loop_total_ge[where acc = "[] @ [(i', j', k)]" and a = a and b = b]
    by (subst gmb_loop.simps) simp
  then have "1 \<le> total (get_matching_blocks a b)"
    using k by (simp add: total_get_matching_blocks)
  then have t: "1 \<le> real (total (get_matching_blocks a b))" by simp
  have l: "0 < real (length a + length b)" "real (length a + length b) \<le> 400"
    using ij(1) assms(2,3) by simp_all
  have "(2 :: real) ^ 9 \<le> 2 ^ 1022" by (rule power_increasing) simp_all
  then have "1 / (2 :: real) ^ 1022 \<le> 1 / 2 ^ 9" by (intro divide_left_mono) simp_all
  also have "\<dots> \<le> 2 / real (length a + length b)"
    using l by (simp add: field_simps)
  also have "\<dots> \<le> 2 * real (total (get_matching_blocks a b)) / real (length a + length b)"
    using t l(1) by (intro divide_right_mono) simp_all
  finally have "0 < double (2 * real (total (get_matching_blocks a b))
      / real (length a + length b))"
    by (rule double_pos_if)
  then show ?thesis
    using l(1) by (simp add: ratio_total calculate_ratio_def)
qed

lemma ratio_zero:
  assumes "\<not> comparten a b" "a \<noteq> [] \<or> b \<noteq> []"
  shows "ratio a b = 0"
proof -
  have none: "\<forall>i\<in>set [0..<length a]. chain_b b (a ! i) = []"
  proof
    fix i assume "i \<in> set [0..<length a]"
    then have i: "i < length a" by simp
    show "chain_b b (a ! i) = []"
    proof (rule ccontr)
      assume "chain_b b (a ! i) \<noteq> []"
      then have "hd (chain_b b (a ! i)) \<in> set (chain_b b (a ! i))" by (rule hd_in_set)
      then have "hd (chain_b b (a ! i)) < length b \<and> b ! hd (chain_b b (a ! i)) = a ! i"
        by (simp add: chain_b_set)
      then show False using assms(1) i unfolding comparten_def by metis
    qed
  qed
  have o: "snd (flm_outer a (chain_b b) 0 (length b) [0..<length a] (Map.empty, (0, 0, 0)))
      = (0, 0, 0)"
    using none by (rule flm_outer_none)
  have l: "extend_left a b 0 0 (0, 0, 0) = (0, 0, 0)"
    by (subst extend_left.simps) simp
  have "\<not> (0 < length a \<and> 0 < length b \<and> a ! 0 = b ! 0)"
    using assms(1) by (auto simp: comparten_def)
  then have r: "extend_right a b (length a) (length b) (0, 0, 0) = (0, 0, 0)"
    by (subst extend_right.simps) auto
  have f: "find_longest_match a b 0 (length a) 0 (length b) = (0, 0, 0)"
    by (simp add: find_longest_match_def Let_def o l r)
  have "gmb_loop a b [(0, length a, 0, length b)] [] = []"
    by (simp add: gmb_loop.simps f)
  then show ?thesis
    using assms(2)
    by (simp add: ratio_total total_get_matching_blocks calculate_ratio_def double_0)
qed

lemma ratio_zero_iff:
  assumes "length a < 200" "length b < 200"
  shows "ratio a b = 0 \<longleftrightarrow> \<not> comparten a b \<and> (a \<noteq> [] \<or> b \<noteq> [])"
proof
  assume z: "ratio a b = 0"
  have "\<not> comparten a b" using ratio_pos[OF _ assms] z by auto
  moreover have "a \<noteq> [] \<or> b \<noteq> []"
    using z by (auto simp: ratio_total calculate_ratio_def)
  ultimately show "\<not> comparten a b \<and> (a \<noteq> [] \<or> b \<noteq> [])" by simp
next
  assume "\<not> comparten a b \<and> (a \<noteq> [] \<or> b \<noteq> [])"
  then show "ratio a b = 0" using ratio_zero by blast
qed

lemma ratio_empty:
  assumes "a = [] \<or> b = []"
  shows "ratio a b = ratio b a"
proof (cases "a = [] \<and> b = []")
  case True
  then show ?thesis by simp
next
  case False
  have "\<not> comparten a b" "\<not> comparten b a" using assms by (auto simp: comparten_def)
  then show ?thesis using False ratio_zero[of a b] ratio_zero[of b a] by auto
qed

subsection \<open>Bounds of the scorer\<close>

text \<open>
  Claim C9. The score of any two strings lies between 0 and 1, and the score of a
  non-empty string with itself is 1.
\<close>

theorem similitud_bounds:
  "0 \<le> calcular_similitud a b \<and> calcular_similitud a b \<le> 1
   \<and> (a \<noteq> [] \<longrightarrow> calcular_similitud a a = 1)"
  using ratio_bounds[of a b] ratio_self[of a] by (simp add: calcular_similitud_def)

theorem similitud_bounds_witness:
  "0 \<le> calcular_similitud ''tide'' ''diet'' \<and> calcular_similitud ''tide'' ''diet'' \<le> 1
   \<and> ''tide'' \<noteq> [] \<and> calcular_similitud ''tide'' ''tide'' = 1"
  using similitud_bounds[of "''tide''" "''diet''"] by simp

subsection \<open>Symmetry of the scorer\<close>

text \<open>
  Claim C3, amended. The scorer is not symmetric: \<open>tide\<close> against \<open>diet\<close> scores 0.25
  and \<open>diet\<close> against \<open>tide\<close> scores 0.5, because equally long blocks are chosen by
  their position in the first argument. The two orders agree when the strings are
  equal or one of them is empty, and for strings shorter than 200 characters one order
  scores 0 exactly when the other does.
\<close>

theorem similitud_symmetric_cases:
  "(a = b \<or> a = [] \<or> b = [] \<longrightarrow> calcular_similitud a b = calcular_similitud b a)
   \<and> (length a < 200 \<and> length b < 200 \<longrightarrow>
        (calcular_similitud a b = 0 \<longleftrightarrow> calcular_similitud b a = 0))"
proof -
  have 1: "calcular_similitud a b = calcular_similitud b a" if "a = b \<or> a = [] \<or> b = []"
  proof (cases "a = b")
    case True
    then show ?thesis by simp
  next
    case False
    then have "a = [] \<or> b = []" using that by simp
    then show ?thesis using ratio_empty[of a b] by (simp add: calcular_similitud_def)
  qed
  have 2: "calcular_similitud a b = 0 \<longleftrightarrow> calcular_similitud b a = 0"
    if "length a < 200 \<and> length b < 200"
    using that ratio_zero_iff[of b a] ratio_zero_iff[of a b] comparten_sym[of a b]
    by (auto simp: calcular_similitud_def)
  show ?thesis using 1 2 by blast
qed

theorem similitud_symmetric_cases_witness:
  "calcular_similitud [] ''diet'' = calcular_similitud ''diet'' []
   \<and> length ''tide'' < 200 \<and> length ''diet'' < 200
   \<and> (calcular_similitud ''tide'' ''diet'' = 0) = (calcular_similitud ''diet'' ''tide'' = 0)"
  using similitud_symmetric_cases[of "[]" "''diet''"]
    similitud_symmetric_cases[of "''tide''" "''diet''"]
  by simp

text \<open>
  The two orders of \<open>tide\<close> and \<open>diet\<close>.
\<close>

theorem similitud_not_symmetric:
  "calcular_similitud ''tide'' ''diet'' = 1 / 4 \<and> calcular_similitud ''diet'' ''tide'' = 1 / 2"
  by code_simp

end
